theory Spec2Isabelle
  imports Main "HOL-Library.Multiset"
begin

section \<open>Python string operations used by the raw-text scanner\<close>

text \<open>
  A \<open>string\<close> is read as a sequence of code points below 256. \<open>str.isspace\<close>, the
  argument-less \<open>strip\<close> family and the regular expression class \<open>\\s\<close> agree on
  the white space among these code points: TAB, LF, VT, FF, CR, FS, GS, RS, US,
  SPACE, NEL (0x85) and NBSP (0xA0).
\<close>

definition is_space :: "char \<Rightarrow> bool" where
  "is_space c = ((of_char c :: nat) \<in> {9, 10, 11, 12, 13, 28, 29, 30, 31, 32, 133, 160})"

text \<open>The line boundaries of \<open>str.splitlines\<close> below 256 (CR LF counts once).\<close>

definition is_linebreak :: "char \<Rightarrow> bool" where
  "is_linebreak c = ((of_char c :: nat) \<in> {10, 11, 12, 13, 28, 29, 30, 133})"

text \<open>
  \<open>after_cr\<close> holds right after a CR boundary, so that the LF of a CR LF pair is not a
  second boundary; \<open>cur\<close> is the current line, reversed.
\<close>

fun splitlines_acc :: "bool \<Rightarrow> string \<Rightarrow> string \<Rightarrow> string list" where
  "splitlines_acc after_cr cur [] = (if cur = [] then [] else [rev cur])"
| "splitlines_acc after_cr cur (c # cs) =
     (if after_cr \<and> (of_char c :: nat) = 10 then splitlines_acc False cur cs
      else if is_linebreak c then rev cur # splitlines_acc ((of_char c :: nat) = 13) [] cs
      else splitlines_acc False (c # cur) cs)"

definition splitlines :: "string \<Rightarrow> string list" where
  "splitlines text = splitlines_acc False [] text"

definition lstrip :: "string \<Rightarrow> string" where
  "lstrip s = dropWhile is_space s"

definition rstrip :: "string \<Rightarrow> string" where
  "rstrip s = rev (dropWhile is_space (rev s))"

definition strip :: "string \<Rightarrow> string" where
  "strip s = rstrip (lstrip s)"

text \<open>\<open>s.strip(chars)\<close> for an explicit set of characters.\<close>

definition strip_chars :: "char set \<Rightarrow> string \<Rightarrow> string" where
  "strip_chars cs s = rev (dropWhile (\<lambda>c. c \<in> cs) (rev (dropWhile (\<lambda>c. c \<in> cs) s)))"

definition startswith :: "string \<Rightarrow> string \<Rightarrow> bool" where
  "startswith s p = (take (length p) s = p)"

definition endswith :: "string \<Rightarrow> string \<Rightarrow> bool" where
  "endswith s p = (length p \<le> length s \<and> drop (length s - length p) s = p)"

text \<open>\<open>p in s\<close> for two strings: \<open>p\<close> occurs as a contiguous substring.\<close>

fun substring :: "string \<Rightarrow> string \<Rightarrow> bool" where
  "substring p [] = (p = [])"
| "substring p (c # cs) = (startswith (c # cs) p \<or> substring p cs)"

abbreviation squote :: char where "squote \<equiv> CHR 0x27"
abbreviation dquote :: char where "dquote \<equiv> CHR 0x22"

text \<open>
  The match of the regular expression \<open>^(['"])(.*?)\\1\\s*:\<close> (line 105), returning group 2.
  The lazy group takes the shortest text after which the opening quote, any white space
  and a colon follow; a line holds no LF, so \<open>.\<close> matches each of its characters.
\<close>

fun quoted_rest :: "char \<Rightarrow> string \<Rightarrow> string \<Rightarrow> string option" where
  "quoted_rest q acc [] = None"
| "quoted_rest q acc (c # cs) =
     (if c = q \<and> startswith (dropWhile is_space cs) '':'' then Some (rev acc)
      else quoted_rest q (c # acc) cs)"

definition match_quoted :: "string \<Rightarrow> string option" where
  "match_quoted s =
     (case s of [] \<Rightarrow> None
      | q # cs \<Rightarrow> if q = squote \<or> q = dquote then quoted_rest q [] cs else None)"


section \<open>The parsed document tree and the Python operations applied to it\<close>

text \<open>
  The document is what \<open>yaml.safe_load\<close> or \<open>json.loads\<close> returns: a tree of
  \<open>None\<close>, booleans, integers, strings, lists and dictionaries. A dictionary keeps its
  insertion order and is modelled by an association list; the parsers produce no
  repeated key (\<open>well_formed\<close> below), and lookup reads the first entry of a key. The model
  restricts dictionary keys to strings and leaves floating point scalars out.
\<close>

datatype py_error = KeyError | TypeError | AttributeError | IndexError

datatype yval =
    YNull
  | YBool bool
  | YInt int
  | YStr string
  | YList "yval list"
  | YDict "(string \<times> yval) list"

fun well_formed :: "yval \<Rightarrow> bool" where
  "well_formed (YList xs) = list_all well_formed xs"
| "well_formed (YDict kvs) = (distinct (map fst kvs) \<and> list_all (\<lambda>kv. well_formed (snd kv)) kvs)"
| "well_formed v = True"

text \<open>An exception aborts the run: the result of a step is the exception or its value.\<close>

definition bind_r :: "py_error + 'a \<Rightarrow> ('a \<Rightarrow> py_error + 'b) \<Rightarrow> py_error + 'b" where
  "bind_r m f = (case m of Inl e \<Rightarrow> Inl e | Inr x \<Rightarrow> f x)"

text \<open>A \<open>for\<close> loop over a list whose body updates the state \<open>s\<close> or raises.\<close>

fun for_each :: "'a list \<Rightarrow> ('a \<Rightarrow> 's \<Rightarrow> py_error + 's) \<Rightarrow> 's \<Rightarrow> py_error + 's" where
  "for_each [] body s = Inr s"
| "for_each (x # xs) body s = bind_r (body x s) (for_each xs body)"

text \<open>Truth value testing (\<open>if v\<close>, \<open>not v\<close>).\<close>

fun truthy :: "yval \<Rightarrow> bool" where
  "truthy YNull = False"
| "truthy (YBool b) = b"
| "truthy (YInt n) = (n \<noteq> 0)"
| "truthy (YStr s) = (s \<noteq> [])"
| "truthy (YList xs) = (xs \<noteq> [])"
| "truthy (YDict kvs) = (kvs \<noteq> [])"

text \<open>Lists and dictionaries are unhashable: as a set element or dictionary key they raise TypeError.\<close>

fun hashable :: "yval \<Rightarrow> bool" where
  "hashable (YList xs) = False"
| "hashable (YDict kvs) = False"
| "hashable v = True"

text \<open>\<open>bool\<close> is a subclass of \<open>int\<close>: \<open>True == 1\<close>.\<close>

fun py_num :: "yval \<Rightarrow> int option" where
  "py_num (YBool b) = Some (if b then 1 else 0)"
| "py_num (YInt n) = Some n"
| "py_num v = None"

text \<open>\<open>a == b\<close>. Dictionaries are equal when they hold equal values under the same keys.\<close>

fun py_eq :: "yval \<Rightarrow> yval \<Rightarrow> bool" where
  "py_eq YNull b = (b = YNull)"
| "py_eq (YBool x) b = (py_num b = Some (if x then 1 else 0))"
| "py_eq (YInt n) b = (py_num b = Some n)"
| "py_eq (YStr s) b = (b = YStr s)"
| "py_eq (YList xs) b = (case b of YList ys \<Rightarrow> list_all2 py_eq xs ys | _ \<Rightarrow> False)"
| "py_eq (YDict kvs) b =
     (case b of
        YDict kws \<Rightarrow> length kvs = length kws \<and>
          list_all (\<lambda>kv. case map_of kws (fst kv) of None \<Rightarrow> False | Some w \<Rightarrow> py_eq (snd kv) w) kvs
      | _ \<Rightarrow> False)"

text \<open>\<open>x in xs\<close> for a list or tuple: equality with some element, no hashing.\<close>

definition in_list :: "yval \<Rightarrow> yval list \<Rightarrow> bool" where
  "in_list x xs = list_ex (py_eq x) xs"

text \<open>
  A Python set of arbitrary hashable values is the list of its elements; \<open>x in s\<close>
  hashes \<open>x\<close> first.
\<close>

definition in_set :: "yval \<Rightarrow> yval list \<Rightarrow> py_error + bool" where
  "in_set x s = (if hashable x then Inr (in_list x s) else Inl TypeError)"

definition set_add :: "yval \<Rightarrow> yval list \<Rightarrow> py_error + yval list" where
  "set_add x s = (if hashable x then Inr (if in_list x s then s else s @ [x]) else Inl TypeError)"

text \<open>\<open>s.update(xs)\<close> and \<open>set(xs)\<close> for a list \<open>xs\<close> of values.\<close>

definition set_update :: "yval list \<Rightarrow> yval list \<Rightarrow> py_error + yval list" where
  "set_update xs s = for_each xs set_add s"

text \<open>
  \<open>x in s\<close> for a set \<open>s\<close> of strings (room ids, evidence ids: the keys of document
  dictionaries): a hashable value that is not a string equals none of them.
\<close>

definition in_strs :: "yval \<Rightarrow> string list \<Rightarrow> py_error + bool" where
  "in_strs x s =
     (case x of YStr t \<Rightarrow> Inr (t \<in> set s)
      | YList xs \<Rightarrow> Inl TypeError
      | YDict kvs \<Rightarrow> Inl TypeError
      | _ \<Rightarrow> Inr False)"

text \<open>\<open>x in v\<close> for a document value \<open>v\<close>: list membership, dictionary key, substring.\<close>

definition py_in :: "yval \<Rightarrow> yval \<Rightarrow> py_error + bool" where
  "py_in x v =
     (case v of
        YList xs \<Rightarrow> Inr (in_list x xs)
      | YDict kvs \<Rightarrow> in_strs x (map fst kvs)
      | YStr s \<Rightarrow> (case x of YStr p \<Rightarrow> Inr (substring p s) | _ \<Rightarrow> Inl TypeError)
      | _ \<Rightarrow> Inl TypeError)"

text \<open>\<open>v.get(k, default)\<close> with a string literal \<open>k\<close>; only a dictionary has \<open>get\<close>.\<close>

definition py_get :: "yval \<Rightarrow> string \<Rightarrow> yval \<Rightarrow> py_error + yval" where
  "py_get v k dflt =
     (case v of
        YDict kvs \<Rightarrow> Inr (case map_of kvs k of Some x \<Rightarrow> x | None \<Rightarrow> dflt)
      | _ \<Rightarrow> Inl AttributeError)"

text \<open>\<open>v.get(key, default)\<close> with a computed key, which is hashed.\<close>

definition py_get_val :: "yval \<Rightarrow> yval \<Rightarrow> yval \<Rightarrow> py_error + yval" where
  "py_get_val v key dflt =
     (case v of
        YDict kvs \<Rightarrow>
          (case key of
             YStr k \<Rightarrow> Inr (case map_of kvs k of Some x \<Rightarrow> x | None \<Rightarrow> dflt)
           | YList xs \<Rightarrow> Inl TypeError
           | YDict kws \<Rightarrow> Inl TypeError
           | _ \<Rightarrow> Inr dflt)
      | _ \<Rightarrow> Inl AttributeError)"

text \<open>\<open>v[k]\<close> with a string literal \<open>k\<close>.\<close>

definition py_subscript :: "yval \<Rightarrow> string \<Rightarrow> py_error + yval" where
  "py_subscript v k =
     (case v of
        YDict kvs \<Rightarrow> (case map_of kvs k of Some x \<Rightarrow> Inr x | None \<Rightarrow> Inl KeyError)
      | _ \<Rightarrow> Inl TypeError)"

text \<open>Iteration (\<open>for x in v\<close>, \<open>set(v)\<close>): the elements, the keys, the characters.\<close>

definition py_iter :: "yval \<Rightarrow> py_error + yval list" where
  "py_iter v =
     (case v of
        YList xs \<Rightarrow> Inr xs
      | YDict kvs \<Rightarrow> Inr (map (\<lambda>kv. YStr (fst kv)) kvs)
      | YStr s \<Rightarrow> Inr (map (\<lambda>c. YStr [c]) s)
      | _ \<Rightarrow> Inl TypeError)"

text \<open>\<open>v.items()\<close> (and with it \<open>keys()\<close>, \<open>values()\<close>).\<close>

definition py_items :: "yval \<Rightarrow> py_error + (string \<times> yval) list" where
  "py_items v = (case v of YDict kvs \<Rightarrow> Inr kvs | _ \<Rightarrow> Inl AttributeError)"

definition is_dict :: "yval \<Rightarrow> bool" where
  "is_dict v = (case v of YDict kvs \<Rightarrow> True | _ \<Rightarrow> False)"

definition is_list :: "yval \<Rightarrow> bool" where
  "is_list v = (case v of YList xs \<Rightarrow> True | _ \<Rightarrow> False)"

text \<open>\<open>str.lower\<close> on code points below 256: A-Z and the Latin-1 capitals.\<close>

definition lower_char :: "char \<Rightarrow> char" where
  "lower_char c =
     (let n = (of_char c :: nat) in
      if (65 \<le> n \<and> n \<le> 90) \<or> (192 \<le> n \<and> n \<le> 222 \<and> n \<noteq> 215) then char_of (n + 32) else c)"

definition lower :: "string \<Rightarrow> string" where
  "lower s = map lower_char s"

definition py_lower :: "yval \<Rightarrow> py_error + string" where
  "py_lower v = (case v of YStr s \<Rightarrow> Inr (lower s) | _ \<Rightarrow> Inl AttributeError)"

text \<open>\<open>s.split()\<close>: the maximal runs of characters that are not white space.\<close>

fun split_ws_acc :: "string \<Rightarrow> string \<Rightarrow> string list" where
  "split_ws_acc cur [] = (if cur = [] then [] else [rev cur])"
| "split_ws_acc cur (c # cs) =
     (if is_space c then (if cur = [] then split_ws_acc [] cs else rev cur # split_ws_acc [] cs)
      else split_ws_acc (c # cur) cs)"

definition split_ws :: "string \<Rightarrow> string list" where
  "split_ws s = split_ws_acc [] s"


section \<open>Diagnostics collector (class Result, lines 13-22)\<close>

text \<open>
  Every diagnostic of the verifier is an f-string: a fixed template with interpolated
  values. \<open>Msg n vs\<close> is the message of the \<open>r.err\<close> or \<open>r.warn\<close> call at line \<open>n\<close>
  of verify\_case.py with the interpolated values \<open>vs\<close>, in the order of the template
  (a string or a number is wrapped as a document value). Two messages built by the same
  call from the same values have the same text. Each call has a name below.
\<close>

datatype msg = Msg nat "yval list"

text \<open>\<^verbatim>\<open>Schema: Missing required top-level field '{field}'\<close>\<close>

abbreviation SchemaMissingField :: "string \<Rightarrow> msg" where
  "SchemaMissingField f \<equiv> Msg 51 [YStr f]"

text \<open>\<^verbatim>\<open>Schema: Victim missing recommended field '{vf}'\<close>\<close>

abbreviation VictimMissingField :: "string \<Rightarrow> msg" where
  "VictimMissingField f \<equiv> Msg 56 [YStr f]"

text \<open>\<^verbatim>\<open>Schema: point_system missing field '{pf}'\<close>\<close>

abbreviation PointSystemMissingField :: "string \<Rightarrow> msg" where
  "PointSystemMissingField f \<equiv> Msg 61 [YStr f]"

text \<open>\<^verbatim>\<open>Duplicate Key (line ~{lineno}): '{key}' already seen at line ~{current_scope[key]} ...\<close>\<close>

abbreviation DuplicateKey :: "nat \<Rightarrow> string \<Rightarrow> nat \<Rightarrow> msg" where
  "DuplicateKey lineno key first \<equiv> Msg 119 [YInt (int lineno), YStr key, YInt (int first)]"

text \<open>\<^verbatim>\<open>Map: No 'map' key defined\<close>\<close>

abbreviation NoMapKey :: "msg" where
  "NoMapKey \<equiv> Msg 138 []"

text \<open>\<^verbatim>\<open>Map: Room '{room_id}' connects_to non-existent room '{target}'\<close>\<close>

abbreviation ConnectsToMissingRoom :: "string \<Rightarrow> yval \<Rightarrow> msg" where
  "ConnectsToMissingRoom room target \<equiv> Msg 162 [YStr room, target]"

text \<open>\<^verbatim>\<open>Map: '{room_id}' -> '{target}' is one-way (no return connection)\<close>\<close>

abbreviation OneWay :: "string \<Rightarrow> string \<Rightarrow> msg" where
  "OneWay room target \<equiv> Msg 170 [YStr room, YStr target]"

text \<open>\<^verbatim>\<open>Map: Room '{room_id}' is unreachable from '{start}' ...\<close>\<close>

abbreviation Unreachable :: "string \<Rightarrow> string \<Rightarrow> msg" where
  "Unreachable room start \<equiv> Msg 178 [YStr room, YStr start]"

text \<open>\<^verbatim>\<open>Map: murderLocation '{murder_loc}' not found in map rooms\<close>\<close>

abbreviation MurderLocationNotInMap :: "yval \<Rightarrow> msg" where
  "MurderLocationNotInMap loc \<equiv> Msg 183 [loc]"

text \<open>\<^verbatim>\<open>Solution: Killer '{killer_id}' not found in suspects list\<close>\<close>

abbreviation KillerNotFound :: "yval \<Rightarrow> msg" where
  "KillerNotFound kid \<equiv> Msg 199 [kid]"

text \<open>\<^verbatim>\<open>Solution: Accomplice '{accomplice_id}' not found in suspects list\<close>\<close>

abbreviation AccompliceNotFound :: "yval \<Rightarrow> msg" where
  "AccompliceNotFound aid \<equiv> Msg 201 [aid]"

text \<open>\<^verbatim>\<open>Solution: Silent witness '{silent_witness_id}' not found in suspects list\<close>\<close>

abbreviation SilentWitnessNotFound :: "yval \<Rightarrow> msg" where
  "SilentWitnessNotFound wid \<equiv> Msg 203 [wid]"

text \<open>\<^verbatim>\<open>Suspect '{sid}': currentLocation '{cl}' not in map\<close>\<close>

abbreviation CurrentLocationNotInMap :: "yval \<Rightarrow> yval \<Rightarrow> msg" where
  "CurrentLocationNotInMap sid cl \<equiv> Msg 213 [sid, cl]"

text \<open>\<^verbatim>\<open>Suspect '{sid}': is solution killer but isGuilty is not true\<close>\<close>

abbreviation KillerNotGuilty :: "yval \<Rightarrow> msg" where
  "KillerNotGuilty sid \<equiv> Msg 218 [sid]"

text \<open>\<^verbatim>\<open>Suspect '{sid}': isGuilty is true but is not the solution killer\<close>\<close>

abbreviation GuiltyNotKiller :: "yval \<Rightarrow> msg" where
  "GuiltyNotKiller sid \<equiv> Msg 221 [sid]"

text \<open>\<^verbatim>\<open>Suspect '{sid}': is solution accomplice but isAccomplice is not true\<close>\<close>

abbreviation AccompliceNotFlagged :: "yval \<Rightarrow> msg" where
  "AccompliceNotFlagged sid \<equiv> Msg 225 [sid]"

text \<open>\<^verbatim>\<open>Suspect '{sid}': isAccomplice is true but is not the solution accomplice\<close>\<close>

abbreviation FlaggedNotAccomplice :: "yval \<Rightarrow> msg" where
  "FlaggedNotAccomplice sid \<equiv> Msg 227 [sid]"

text \<open>\<^verbatim>\<open>Suspect '{sid}': is solution silent_witness but isSilentWitness is not true\<close>\<close>

abbreviation SilentWitnessNotFlagged :: "yval \<Rightarrow> msg" where
  "SilentWitnessNotFlagged sid \<equiv> Msg 231 [sid]"

text \<open>\<^verbatim>\<open>Suspect '{sid}': isSilentWitness is true but is not the solution silent_witness\<close>\<close>

abbreviation FlaggedNotSilentWitness :: "yval \<Rightarrow> msg" where
  "FlaggedNotSilentWitness sid \<equiv> Msg 233 [sid]"

text \<open>\<^verbatim>\<open>Suspect '{sid}': Missing alibi field\<close>\<close>

abbreviation MissingAlibi :: "yval \<Rightarrow> msg" where
  "MissingAlibi sid \<equiv> Msg 238 [sid]"

text \<open>\<^verbatim>\<open>Suspect '{sid}': Has no secrets defined ...\<close>\<close>

abbreviation NoSecrets :: "yval \<Rightarrow> msg" where
  "NoSecrets sid \<equiv> Msg 242 [sid]"

text \<open>\<^verbatim>\<open>Suspect '{sid}': Unrecognised resistance_level '{rl}' ...\<close>\<close>

abbreviation UnrecognisedResistance :: "yval \<Rightarrow> yval \<Rightarrow> msg" where
  "UnrecognisedResistance sid rl \<equiv> Msg 247 [sid, rl]"

text \<open>\<^verbatim>\<open>Evidence: physical_discovery references non-existent room '{room_id}'\<close>\<close>

abbreviation DiscoveryRoomMissing :: "string \<Rightarrow> msg" where
  "DiscoveryRoomMissing room \<equiv> Msg 270 [YStr room]"

text \<open>\<^verbatim>\<open>Evidence: physical_discovery['{room_id}'] must be a list, got {type(ev_list).__name__}\<close>\<close>

abbreviation DiscoveryNotList :: "string \<Rightarrow> yval \<Rightarrow> msg" where
  "DiscoveryNotList room v \<equiv> Msg 272 [YStr room, v]"

text \<open>\<^verbatim>\<open>Evidence: physical_discovery room '{room_id}' references undeclared evidence '{ev_id}'\<close>\<close>

abbreviation DiscoveryUndeclared :: "string \<Rightarrow> yval \<Rightarrow> msg" where
  "DiscoveryUndeclared room ev \<equiv> Msg 276 [YStr room, ev]"

text \<open>\<^verbatim>\<open>Map: Interactable '{item.get('name')}' in '{room_id}' has evidence_id '{eid}' not in physical_evidence\<close>\<close>

abbreviation InteractableUndeclared :: "yval \<Rightarrow> string \<Rightarrow> yval \<Rightarrow> msg" where
  "InteractableUndeclared name room eid \<equiv> Msg 285 [name, YStr room, eid]"

text \<open>\<^verbatim>\<open>Evidence: '{ev_id}' is declared in physical_evidence but not listed in any physical_discovery room ...\<close>\<close>

abbreviation NeverDiscoverable :: "string \<Rightarrow> msg" where
  "NeverDiscoverable ev \<equiv> Msg 294 [YStr ev]"

text \<open>\<^verbatim>\<open>Solution: key_evidence '{ev_id}' not declared in physical_evidence\<close>\<close>

abbreviation KeyEvidenceUndeclared :: "yval \<Rightarrow> msg" where
  "KeyEvidenceUndeclared ev \<equiv> Msg 300 [ev]"

text \<open>\<^verbatim>\<open>Evidence: all_locations contains non-existent room '{loc}'\<close>\<close>

abbreviation AllLocationsMissingRoom :: "yval \<Rightarrow> msg" where
  "AllLocationsMissingRoom loc \<equiv> Msg 305 [loc]"

text \<open>\<^verbatim>\<open>DNA: References non-existent room '{room_id}'\<close>\<close>

abbreviation DnaRoomMissing :: "string \<Rightarrow> msg" where
  "DnaRoomMissing room \<equiv> Msg 315 [YStr room]"

text \<open>\<^verbatim>\<open>DNA: Entry for room '{room_id}' must be a list (got {type(names).__name__}) ...\<close>\<close>

abbreviation DnaNotList :: "string \<Rightarrow> yval \<Rightarrow> msg" where
  "DnaNotList room v \<equiv> Msg 317 [YStr room, v]"

text \<open>\<^verbatim>\<open>DNA: Unknown profile '{name}' in room '{room_id}'\<close>\<close>

abbreviation DnaUnknownProfile :: "yval \<Rightarrow> string \<Rightarrow> msg" where
  "DnaUnknownProfile name room \<equiv> Msg 321 [name, YStr room]"

text \<open>\<^verbatim>\<open>Evidence: Killer '{killer_id}' has no DNA at murder location '{murder_loc}' ...\<close>\<close>

abbreviation KillerNoDna :: "yval \<Rightarrow> yval \<Rightarrow> msg" where
  "KillerNoDna kid loc \<equiv> Msg 329 [kid, loc]"

text \<open>\<^verbatim>\<open>Suspect '{sid}' secret '{sec_id}': requiresEvidence uses dot-notation '{req}' ...\<close>\<close>

abbreviation RequiresEvidenceDot :: "yval \<Rightarrow> yval \<Rightarrow> yval \<Rightarrow> msg" where
  "RequiresEvidenceDot sid sec req \<equiv> Msg 358 [sid, sec, req]"

text \<open>\<^verbatim>\<open>Suspect '{sid}' secret '{sec_id}': requiresEvidence references undeclared ID '{req}'\<close>\<close>

abbreviation RequiresEvidenceUndeclared :: "yval \<Rightarrow> yval \<Rightarrow> yval \<Rightarrow> msg" where
  "RequiresEvidenceUndeclared sid sec req \<equiv> Msg 360 [sid, sec, req]"

text \<open>\<^verbatim>\<open>Suspect '{sid}' secret '{sec_id}': requiresSecrets references unknown secret ID '{req}'\<close>\<close>

abbreviation RequiresSecretsUnknown :: "yval \<Rightarrow> yval \<Rightarrow> yval \<Rightarrow> msg" where
  "RequiresSecretsUnknown sid sec req \<equiv> Msg 366 [sid, sec, req]"

text \<open>\<^verbatim>\<open>Suspect '{sid}' secret '{sec_id}': requiresSecrets references itself - circular dependency\<close>\<close>

abbreviation SelfReference :: "yval \<Rightarrow> yval \<Rightarrow> msg" where
  "SelfReference sid sec \<equiv> Msg 370 [sid, sec]"

text \<open>\<^verbatim>\<open>Suspect '{sid}' secret '{sec_id}': minPressure must be a number, got '{mp}'\<close>\<close>

abbreviation MinPressureNotNumber :: "yval \<Rightarrow> yval \<Rightarrow> yval \<Rightarrow> msg" where
  "MinPressureNotNumber sid sec mp \<equiv> Msg 375 [sid, sec, mp]"

text \<open>\<^verbatim>\<open>Suspect '{sid}' secret '{sec_id}': minPressure={mp} is very high ...\<close>\<close>

abbreviation MinPressureHigh :: "yval \<Rightarrow> yval \<Rightarrow> yval \<Rightarrow> msg" where
  "MinPressureHigh sid sec mp \<equiv> Msg 379 [sid, sec, mp]"

text \<open>\<^verbatim>\<open>Suspect '{sid}' secret '{sec_id}' (minPressure={sec_mp}) requires secret '{req}' (minPressure={req_mp}) but has equal or lower pressure ...\<close>\<close>

abbreviation PressureOrder :: "yval \<Rightarrow> yval \<Rightarrow> yval \<Rightarrow> yval \<Rightarrow> yval \<Rightarrow> msg" where
  "PressureOrder sid sec smp req rmp \<equiv> Msg 395 [sid, sec, smp, req, rmp]"

text \<open>\<^verbatim>\<open>Resource: {context} '{asset_path}' not found at {full_path}\<close>\<close>

abbreviation ResourceNotFound :: "yval \<Rightarrow> yval \<Rightarrow> string \<Rightarrow> msg" where
  "ResourceNotFound ctx path full \<equiv> Msg 406 [ctx, path, YStr full]"

text \<open>\<^verbatim>\<open>Narrative: key_evidence '{ev_id}' is never required by any suspect secret trigger ...\<close>\<close>

abbreviation KeyEvidenceNeverRequired :: "yval \<Rightarrow> msg" where
  "KeyEvidenceNeverRequired ev \<equiv> Msg 434 [ev]"

text \<open>\<^verbatim>\<open>Narrative: Killer '{killer_id}' has no secret triggered by murder scene evidence ...\<close>\<close>

abbreviation KillerNoMurderSceneSecret :: "yval \<Rightarrow> msg" where
  "KillerNoMurderSceneSecret kid \<equiv> Msg 448 [kid]"

text \<open>\<^verbatim>\<open>Narrative: Killer '{killer_id}' has no confession/terminal secret ...\<close>\<close>

abbreviation KillerNoConfession :: "yval \<Rightarrow> msg" where
  "KillerNoConfession kid \<equiv> Msg 456 [kid]"

text \<open>\<^verbatim>\<open>Narrative: Suspect '{sid}' has no initial police statement\<close>\<close>

abbreviation NoPoliceStatement :: "yval \<Rightarrow> msg" where
  "NoPoliceStatement sid \<equiv> Msg 463 [sid]"

text \<open>\<^verbatim>\<open>Narrative: win_conditions text doesn't mention killer '{killer_id}' - may be vague\<close>\<close>

abbreviation WinConditionsSilent :: "yval \<Rightarrow> msg" where
  "WinConditionsSilent kid \<equiv> Msg 471 [kid]"

text \<open>The context argument of \<open>check_asset\<close> (lines 408, 411, 415), itself an f-string.\<close>

abbreviation VictimAvatar :: yval where
  "VictimAvatar \<equiv> YList [YStr ''Victim avatar'']"

abbreviation SuspectAvatar :: "yval \<Rightarrow> yval" where
  "SuspectAvatar sid \<equiv> YList [YStr ''Suspect avatar'', sid]"

abbreviation RoomImage :: "string \<Rightarrow> yval" where
  "RoomImage room \<equiv> YList [YStr ''Room image'', YStr room]"

record result =
  errors :: "msg list"
  warnings :: "msg list"

definition new_result :: result where
  "new_result = \<lparr>errors = [], warnings = []\<rparr>"

definition err :: "msg \<Rightarrow> result \<Rightarrow> result" where
  "err m r = r\<lparr>errors := errors r @ [m]\<rparr>"

definition warn :: "msg \<Rightarrow> result \<Rightarrow> result" where
  "warn m r = r\<lparr>warnings := warnings r @ [m]\<rparr>"

text \<open>\<open>if c: r.err(m)\<close> and \<open>if c: r.warn(m)\<close>.\<close>

definition err_if :: "bool \<Rightarrow> msg \<Rightarrow> result \<Rightarrow> result" where
  "err_if c m r = (if c then err m r else r)"

definition warn_if :: "bool \<Rightarrow> msg \<Rightarrow> result \<Rightarrow> result" where
  "warn_if c m r = (if c then warn m r else r)"

section \<open>Raw-text duplicate-key scanner (check\_duplicate\_keys\_raw, lines 67-129)\<close>

text \<open>
  A stack entry is the tuple (indent, is list item scope, seen) of the source; \<open>seen\<close>
  is the dictionary from key to line number, kept as an association list. The head of
  the HOL list is the top of the stack (\<open>scope_stack[-1]\<close>).
\<close>

type_synonym scope = "int \<times> bool \<times> (string \<times> nat) list"

text \<open>The two loops \<open>while len(scope_stack) > 1 and scope_stack[-1][0] >= indent: pop\<close>.\<close>

fun pop_scopes :: "int \<Rightarrow> scope list \<Rightarrow> scope list" where
  "pop_scopes indent (s # t # rest) =
     (if fst s \<ge> indent then pop_scopes indent (t # rest) else s # t # rest)"
| "pop_scopes indent st = st"

text \<open>Lines 103-109: the key of a line that contains a colon.\<close>

definition extract_key :: "string \<Rightarrow> string" where
  "extract_key stripped =
     (case match_quoted stripped of
        Some k \<Rightarrow> k
      | None \<Rightarrow> strip_chars {squote, dquote} (strip (takeWhile (\<lambda>c. c \<noteq> CHR '':'') stripped)))"

text \<open>
  Lines 100-129 for one line, after the list-item prefix has been dealt with:
  \<open>stripped\<close> and \<open>indent\<close> are the values of the variables at line 100.
\<close>

definition scan_key :: "nat \<Rightarrow> string \<Rightarrow> int \<Rightarrow> scope list \<times> msg list
    \<Rightarrow> scope list \<times> msg list" where
  "scan_key lineno stripped indent st =
     (if CHR '':'' \<notin> set stripped then st
      else let key = extract_key stripped in
        if key = [] \<or> startswith key ''{'' then st
        else
          (case pop_scopes indent (fst st) of
             [] \<Rightarrow> st
           | (i, l, seen) # rest \<Rightarrow>
               let (seen', errs') =
                     (case map_of seen key of
                        Some first \<Rightarrow> (seen, snd st @ [DuplicateKey lineno key first])
                      | None \<Rightarrow> (seen @ [(key, lineno)], snd st));
                   stack' = (i, l, seen') # rest
               in if endswith (rstrip stripped) '':''
                     \<or> (\<not> substring '': '' stripped \<and> endswith stripped '':'')
                  then ((indent + 1, False, []) # stack', errs')
                  else (stack', errs')))"

text \<open>The body of the loop of line 79 for one numbered line.\<close>

definition scan_line :: "scope list \<times> msg list \<Rightarrow> nat \<times> string \<Rightarrow> scope list \<times> msg list" where
  "scan_line st ln =
     (let lineno = fst ln; raw_line = snd ln; stripped = lstrip raw_line in
      if stripped = [] \<or> startswith stripped ''#'' then st
      else let indent = int (length raw_line) - int (length stripped) in
        if startswith stripped ''- '' then
          let stack1 = (indent, True, []) # pop_scopes indent (fst st);
              stripped' = lstrip (drop 2 stripped)
          in if stripped' = [] \<or> CHR '':'' \<notin> set stripped' then (stack1, snd st)
             else scan_key lineno stripped' (indent + 2) (stack1, snd st)
        else scan_key lineno stripped indent st)"

text \<open>The loop of line 79 over lines numbered from \<open>start\<close>.\<close>

definition scan_lines :: "nat \<Rightarrow> string list \<Rightarrow> scope list \<times> msg list \<Rightarrow> scope list \<times> msg list" where
  "scan_lines start ls st = foldl scan_line st (enumerate start ls)"

text \<open>Line 77: the stack starts with the root scope; no error has been recorded.\<close>

definition scan_init :: "scope list \<times> msg list" where
  "scan_init = ([(-1, False, [])], [])"

text \<open>The scanner on a text: the final scope stack and the errors it recorded.\<close>

definition scan_text :: "string \<Rightarrow> scope list \<times> msg list" where
  "scan_text text = scan_lines 1 (splitlines text) scan_init"

definition check_duplicate_keys_raw :: "string \<Rightarrow> msg list" where
  "check_duplicate_keys_raw text = snd (scan_text text)"


section \<open>Check helpers (lines 29-38)\<close>

text \<open>Dictionaries built by the checks, keyed by strings: \<open>d.get(k, default)\<close> and \<open>d[k] = v\<close>.\<close>

definition dict_get :: "(string \<times> 'v) list \<Rightarrow> string \<Rightarrow> 'v \<Rightarrow> 'v" where
  "dict_get d k dflt = (case map_of d k of Some v \<Rightarrow> v | None \<Rightarrow> dflt)"

fun dict_set :: "string \<Rightarrow> 'v \<Rightarrow> (string \<times> 'v) list \<Rightarrow> (string \<times> 'v) list" where
  "dict_set k v [] = [(k, v)]"
| "dict_set k v (kv # kvs) = (if fst kv = k then (k, v) # kvs else kv # dict_set k v kvs)"

text \<open>
  \<open>_dfs_reachable\<close>: the loop \<open>while stack\<close>. The head of \<open>stack\<close> is the top of the
  Python stack, so the neighbours pushed one after the other arrive in reverse order;
  \<open>visited\<close> lists the visited set in the order of the visits.
\<close>

function dfs_loop :: "(string \<times> string list) list \<Rightarrow> string list \<Rightarrow> string list \<Rightarrow> string list" where
  "dfs_loop graph visited [] = visited"
| "dfs_loop graph visited (node # stack) =
     (if node \<in> set visited then dfs_loop graph visited stack
      else dfs_loop graph (visited @ [node]) (rev (dict_get graph node []) @ stack))"
  by pat_completeness auto

lemma dict_get_nodes: "set (dict_get graph node []) \<subseteq> set (concat (map snd graph))"
proof (cases "map_of graph node")
  case None
  then show ?thesis by (simp add: dict_get_def)
next
  case (Some ns)
  then have "(node, ns) \<in> set graph" by (rule map_of_SomeD)
  then show ?thesis using Some by (force simp: dict_get_def)
qed

termination dfs_loop
proof (relation "inv_image (finite_psubset <*lex*> less_than)
    (\<lambda>(graph, visited, stack). (set (concat (map snd graph)) \<union> set stack - set visited, length stack))",
    goal_cases)
  case 1
  show ?case by auto
next
  case (2 graph visited node stack)
  then show ?case by (auto simp: finite_psubset_def)
next
  case (3 graph visited node stack)
  have "set (concat (map snd graph)) \<union> set (rev (dict_get graph node []) @ stack) - set (visited @ [node])
      \<subset> set (concat (map snd graph)) \<union> set (node # stack) - set visited"
    using 3 dict_get_nodes[of graph node] by auto
  then show ?case by (simp add: finite_psubset_def)
qed

definition dfs_reachable :: "string \<Rightarrow> (string \<times> string list) list \<Rightarrow> string list" where
  "dfs_reachable start graph = dfs_loop graph [] [start]"

section \<open>Section validators\<close>

subsection \<open>check\_schema (lines 45-61)\<close>

definition required_fields :: "string list" where
  "required_fields = [''id'', ''name'', ''description'', ''victim'', ''murderTime'',
     ''murderLocation'', ''evidence'', ''solution'', ''suspects'', ''settings'']"

definition check_schema :: "yval \<Rightarrow> result \<Rightarrow> py_error + result" where
  "check_schema data r =
     bind_r (for_each required_fields
        (\<lambda>field r. bind_r (py_in (YStr field) data)
           (\<lambda>present. Inr (err_if (\<not> present) (SchemaMissingField field) r))) r) (\<lambda>r.
     bind_r (py_in (YStr ''victim'') data) (\<lambda>has_victim.
     bind_r (if has_victim then
          for_each [''name'', ''id'', ''avatar'']
            (\<lambda>vf r. bind_r (py_subscript data ''victim'') (\<lambda>victim.
                     bind_r (py_in (YStr vf) victim)
                       (\<lambda>present. Inr (warn_if (\<not> present) (VictimMissingField vf) r)))) r
        else Inr r) (\<lambda>r.
     bind_r (py_in (YStr ''point_system'') data) (\<lambda>has_points.
     if has_points then
       for_each [''question_cost'', ''search_cost'', ''correct_deduction_reward'', ''key_evidence_reward'']
         (\<lambda>pf r. bind_r (py_subscript data ''point_system'') (\<lambda>points.
                  bind_r (py_in (YStr pf) points)
                    (\<lambda>present. Inr (warn_if (\<not> present) (PointSystemMissingField pf) r)))) r
     else Inr r))))"

subsection \<open>check\_map (lines 132-185)\<close>

text \<open>
  The iteration order of a Python set of strings is not fixed by the language: it follows
  the hashes of the strings, which are salted anew for each process. A run is modelled
  relative to its \<open>order\<close>: the function that gives, for the elements of a set (listed as
  they were inserted), the sequence in which a \<open>for\<close> loop of that run visits them.
  Sets are only iterated at lines 177 and 292.
\<close>

type_synonym set_order = "string list \<Rightarrow> string list"

text \<open>Lines 160-164 for one \<open>target\<close>; \<open>rooms\<close> holds the keys of the map, all strings.\<close>

definition connect_step :: "string list \<Rightarrow> string \<Rightarrow> yval \<Rightarrow> string list \<times> result
    \<Rightarrow> py_error + string list \<times> result" where
  "connect_step rooms room_id target st =
     (case target of
        YStr t \<Rightarrow>
          if t \<notin> set rooms then Inr (fst st, err (ConnectsToMissingRoom room_id target) (snd st))
          else Inr (fst st @ [t], snd st)
      | YList xs \<Rightarrow> Inl TypeError
      | YDict kvs \<Rightarrow> Inl TypeError
      | _ \<Rightarrow> Inr (fst st, err (ConnectsToMissingRoom room_id target) (snd st)))"

text \<open>Lines 145-157: the connections of a room, after the pass over its interactables.\<close>

definition room_connects :: "yval \<Rightarrow> py_error + yval" where
  "room_connects room_info =
     (if is_dict room_info then
        bind_r (py_get room_info ''connects_to'' (YList [])) (\<lambda>connects.
        bind_r (py_get room_info ''interactables'' (YList [])) (\<lambda>interactables.
        bind_r (py_iter interactables) (\<lambda>items.
        bind_r (for_each items (\<lambda>item u. bind_r (py_get item ''evidence_id'' YNull) (\<lambda>eid. Inr u)) ())
          (\<lambda>u. Inr connects))))
      else if is_list room_info then Inr room_info
      else Inr (YList []))"

text \<open>The body of the loop of line 144.\<close>

definition map_room :: "string list \<Rightarrow> string \<times> yval \<Rightarrow> (string \<times> string list) list \<times> result
    \<Rightarrow> py_error + (string \<times> string list) list \<times> result" where
  "map_room rooms entry st =
     bind_r (room_connects (snd entry)) (\<lambda>connects.
     bind_r (py_iter connects) (\<lambda>targets.
     bind_r (for_each targets (connect_step rooms (fst entry)) ([], snd st)) (\<lambda>res.
     Inr (dict_set (fst entry) (fst res) (fst st), snd res))))"

text \<open>Lines 167-170.\<close>

definition one_way_warnings :: "(string \<times> string list) list \<Rightarrow> msg list" where
  "one_way_warnings adj =
     concat (map (\<lambda>entry.
       concat (map (\<lambda>target.
         if fst entry \<notin> set (dict_get adj target []) then [OneWay (fst entry) target] else [])
         (snd entry))) adj)"

definition warn_all :: "msg list \<Rightarrow> result \<Rightarrow> result" where
  "warn_all ms r = foldl (\<lambda>r m. warn m r) r ms"

text \<open>Lines 173-178; \<open>start\<close> is the first key of the map.\<close>

definition unreachable_warnings :: "set_order \<Rightarrow> string list \<Rightarrow> (string \<times> string list) list \<Rightarrow> msg list" where
  "unreachable_warnings order rooms adj =
     (case rooms of
        [] \<Rightarrow> []
      | start # others \<Rightarrow>
          let reachable = dfs_reachable start adj;
              isolated = filter (\<lambda>room. room \<notin> set reachable) rooms
          in map (\<lambda>room_id. Unreachable room_id start) (order isolated))"

definition check_map :: "set_order \<Rightarrow> yval \<Rightarrow> result
    \<Rightarrow> py_error + (string list \<times> (string \<times> string list) list) \<times> result" where
  "check_map order data r =
     bind_r (py_in (YStr ''map'') data) (\<lambda>has_map.
     if \<not> has_map then Inr (([], []), err NoMapKey r)
     else
       bind_r (py_subscript data ''map'') (\<lambda>the_map.
       bind_r (py_items the_map) (\<lambda>entries.
       let rooms = map fst entries in
       bind_r (for_each entries (map_room rooms) ([], r)) (\<lambda>res.
       let adj = fst res;
           r1 = warn_all (one_way_warnings adj) (snd res);
           r2 = warn_all (unreachable_warnings order rooms adj) r1
       in
       bind_r (py_get data ''murderLocation'' YNull) (\<lambda>murder_loc.
       bind_r (if truthy murder_loc then in_strs murder_loc rooms else Inr True) (\<lambda>known.
       Inr ((rooms, adj), err_if (\<not> known) (MurderLocationNotInMap murder_loc) r2)))))))"


subsection \<open>check\_suspects\_and\_solution (lines 188-249)\<close>

text \<open>Line 191 and its likes: the set comprehension \<open>{s['id'] for s in xs}\<close>.\<close>

definition id_set :: "yval \<Rightarrow> py_error + yval list" where
  "id_set xs =
     bind_r (py_iter xs) (\<lambda>elems.
     for_each elems (\<lambda>s ids. bind_r (py_subscript s ''id'') (\<lambda>i. set_add i ids)) [])"

text \<open>Lines 194-196: the three role ids of the solution, which may be a bare killer id.\<close>

definition solution_roles :: "yval \<Rightarrow> py_error + yval \<times> yval \<times> yval" where
  "solution_roles solution =
     (if is_dict solution then
        bind_r (py_get solution ''killer'' YNull) (\<lambda>killer_id.
        bind_r (py_get solution ''accomplice'' (YStr ''none'')) (\<lambda>accomplice_id.
        bind_r (py_get solution ''silent_witness'' (YStr ''none'')) (\<lambda>silent_witness_id.
        Inr (killer_id, accomplice_id, silent_witness_id))))
      else Inr (solution, YStr ''none'', YStr ''none''))"

text \<open>Lines 198-203.\<close>

definition check_roles :: "yval list \<Rightarrow> yval \<times> yval \<times> yval \<Rightarrow> result \<Rightarrow> py_error + result" where
  "check_roles suspect_ids roles r =
     (let killer_id = fst roles; accomplice_id = fst (snd roles); silent_witness_id = snd (snd roles) in
      bind_r (in_set killer_id suspect_ids) (\<lambda>found.
      let r = err_if (\<not> found) (KillerNotFound killer_id) r in
      bind_r (if \<not> py_eq accomplice_id (YStr ''none'') then in_set accomplice_id suspect_ids else Inr True)
        (\<lambda>found.
      let r = err_if (\<not> found) (AccompliceNotFound accomplice_id) r in
      bind_r (if \<not> py_eq silent_witness_id (YStr ''none'') then in_set silent_witness_id suspect_ids
              else Inr True) (\<lambda>found.
      Inr (err_if (\<not> found) (SilentWitnessNotFound silent_witness_id) r)))))"

text \<open>Lines 216-233 for one suspect: the three flags against the three roles.\<close>

definition check_flags :: "yval \<times> yval \<times> yval \<Rightarrow> yval \<Rightarrow> yval \<Rightarrow> result \<Rightarrow> py_error + result" where
  "check_flags roles suspect sid r =
     (let killer_id = fst roles; accomplice_id = fst (snd roles); silent_witness_id = snd (snd roles) in
      bind_r (py_get suspect ''isGuilty'' YNull) (\<lambda>guilty.
      let r = (if py_eq sid killer_id then err_if (\<not> truthy guilty) (KillerNotGuilty sid) r
               else err_if (truthy guilty) (GuiltyNotKiller sid) r) in
      bind_r (py_get suspect ''isAccomplice'' YNull) (\<lambda>accomplice.
      let r = (if py_eq sid accomplice_id then err_if (\<not> truthy accomplice) (AccompliceNotFlagged sid) r
               else err_if (truthy accomplice) (FlaggedNotAccomplice sid) r) in
      bind_r (py_get suspect ''isSilentWitness'' YNull) (\<lambda>witness.
      Inr (if py_eq sid silent_witness_id
           then err_if (\<not> truthy witness) (SilentWitnessNotFlagged sid) r
           else err_if (truthy witness) (FlaggedNotSilentWitness sid) r)))))"

definition resistance_levels :: "yval list" where
  "resistance_levels = [YStr ''low'', YStr ''moderate'', YStr ''high'', YStr ''expert'']"

text \<open>The body of the loop of line 207.\<close>

definition check_suspect :: "string list \<Rightarrow> yval \<times> yval \<times> yval \<Rightarrow> yval \<Rightarrow> result \<Rightarrow> py_error + result" where
  "check_suspect rooms roles suspect r =
     bind_r (py_subscript suspect ''id'') (\<lambda>sid.
     bind_r (py_get suspect ''currentLocation'' YNull) (\<lambda>cl.
     bind_r (if truthy cl then in_strs cl rooms else Inr True) (\<lambda>known.
     bind_r (check_flags roles suspect sid (err_if (\<not> known) (CurrentLocationNotInMap sid cl) r)) (\<lambda>r.
     bind_r (py_get suspect ''alibi'' YNull) (\<lambda>alibi.
     let r = warn_if (\<not> truthy alibi) (MissingAlibi sid) r in
     bind_r (py_get suspect ''secrets'' YNull) (\<lambda>secrets.
     let r = warn_if (\<not> truthy secrets) (NoSecrets sid) r in
     bind_r (py_get suspect ''resistance_level'' YNull) (\<lambda>rl.
     Inr (warn_if (truthy rl \<and> \<not> in_list rl resistance_levels) (UnrecognisedResistance sid rl) r))))))))"

definition check_suspects_and_solution :: "yval \<Rightarrow> string list \<Rightarrow> result
    \<Rightarrow> py_error + (yval list \<times> yval \<times> yval \<times> yval) \<times> result" where
  "check_suspects_and_solution data rooms r =
     bind_r (py_get data ''suspects'' (YList [])) (\<lambda>suspects.
     bind_r (id_set suspects) (\<lambda>suspect_ids.
     bind_r (py_get data ''solution'' (YDict [])) (\<lambda>solution.
     bind_r (solution_roles solution) (\<lambda>roles.
     bind_r (check_roles suspect_ids roles r) (\<lambda>r.
     bind_r (py_iter suspects) (\<lambda>elems.
     bind_r (for_each elems (check_suspect rooms roles) r) (\<lambda>r.
     Inr ((suspect_ids, roles), r))))))))"


subsection \<open>collect\_all\_secret\_ids (lines 252-256)\<close>

text \<open>
  A dictionary built by the checks whose keys are document values (suspect and secret
  ids): an association list read and written up to Python equality of the keys.
\<close>

fun pd_get :: "(yval \<times> 'v) list \<Rightarrow> yval \<Rightarrow> 'v option" where
  "pd_get [] k = None"
| "pd_get (kv # kvs) k = (if py_eq (fst kv) k then Some (snd kv) else pd_get kvs k)"

fun pd_set :: "yval \<Rightarrow> 'v \<Rightarrow> (yval \<times> 'v) list \<Rightarrow> (yval \<times> 'v) list" where
  "pd_set k v [] = [(k, v)]"
| "pd_set k v (kv # kvs) = (if py_eq (fst kv) k then (fst kv, v) # kvs else kv # pd_set k v kvs)"

text \<open>\<open>d[k] = v\<close> and \<open>d.get(k, default)\<close>, which hash the key.\<close>

definition pd_store :: "yval \<Rightarrow> 'v \<Rightarrow> (yval \<times> 'v) list \<Rightarrow> py_error + (yval \<times> 'v) list" where
  "pd_store k v d = (if hashable k then Inr (pd_set k v d) else Inl TypeError)"

definition pd_lookup :: "(yval \<times> 'v) list \<Rightarrow> yval \<Rightarrow> 'v \<Rightarrow> py_error + 'v" where
  "pd_lookup d k dflt =
     (if hashable k then Inr (case pd_get d k of Some v \<Rightarrow> v | None \<Rightarrow> dflt) else Inl TypeError)"

text \<open>Line 255 evaluates the set of secret ids before it subscripts the suspect.\<close>

definition collect_all_secret_ids :: "yval \<Rightarrow> py_error + (yval \<times> yval list) list" where
  "collect_all_secret_ids data =
     bind_r (py_get data ''suspects'' (YList [])) (\<lambda>suspects.
     bind_r (py_iter suspects) (\<lambda>elems.
     for_each elems
       (\<lambda>suspect result.
          bind_r (py_get suspect ''secrets'' (YList [])) (\<lambda>secrets.
          bind_r (id_set secrets) (\<lambda>ids.
          bind_r (py_subscript suspect ''id'') (\<lambda>sid.
          pd_store sid ids result)))) []))"

subsection \<open>check\_evidence\_ids (lines 259-329)\<close>

text \<open>\<open>set(d.keys())\<close> of a document dictionary.\<close>

definition key_set :: "yval \<Rightarrow> py_error + string list" where
  "key_set d = bind_r (py_items d) (\<lambda>entries. Inr (map fst entries))"

text \<open>Lines 268-276: one entry of \<open>physical_discovery\<close>.\<close>

definition discovery_entry :: "string list \<Rightarrow> string list \<Rightarrow> string \<times> yval \<Rightarrow> result \<Rightarrow> py_error + result" where
  "discovery_entry rooms phys_ev_ids entry r =
     (let room_id = fst entry; ev_list = snd entry;
          r = err_if (room_id \<notin> set rooms) (DiscoveryRoomMissing room_id) r in
      case ev_list of
        YList evs \<Rightarrow>
          for_each evs (\<lambda>ev_id r. bind_r (in_strs ev_id phys_ev_ids)
            (\<lambda>declared. Inr (err_if (\<not> declared) (DiscoveryUndeclared room_id ev_id) r))) r
      | _ \<Rightarrow> Inr (err (DiscoveryNotList room_id ev_list) r))"

text \<open>Lines 279-285: the interactables of one room of the map.\<close>

definition interactables_entry :: "string list \<Rightarrow> string \<times> yval \<Rightarrow> result \<Rightarrow> py_error + result" where
  "interactables_entry phys_ev_ids entry r =
     (let room_id = fst entry; room_info = snd entry in
      if \<not> is_dict room_info then Inr r
      else
        bind_r (py_get room_info ''interactables'' (YList [])) (\<lambda>interactables.
        bind_r (py_iter interactables) (\<lambda>items.
        for_each items
          (\<lambda>item r.
             bind_r (py_get item ''evidence_id'' YNull) (\<lambda>eid.
             if truthy eid then
               bind_r (in_strs eid phys_ev_ids) (\<lambda>declared.
               if declared then Inr r
               else bind_r (py_get item ''name'' YNull)
                      (\<lambda>name. Inr (err (InteractableUndeclared name room_id eid) r)))
             else Inr r)) r)))"

text \<open>Lines 288-291: the set of the evidence ids listed in some discovery room.\<close>

definition discoverable_set :: "(string \<times> yval) list \<Rightarrow> py_error + yval list" where
  "discoverable_set entries =
     for_each entries
       (\<lambda>entry s. case snd entry of YList evs \<Rightarrow> set_update evs s | _ \<Rightarrow> Inr s) []"

text \<open>Lines 292-294: the loop over the set \<open>phys_ev_ids\<close>, in the order of the run.\<close>

definition never_discoverable_warnings :: "set_order \<Rightarrow> string list \<Rightarrow> yval list \<Rightarrow> msg list" where
  "never_discoverable_warnings order phys_ev_ids discoverable =
     map NeverDiscoverable (filter (\<lambda>ev_id. \<not> in_list (YStr ev_id) discoverable) (order phys_ev_ids))"

text \<open>Lines 308-311. \<open>''.split()[0]\<close> raises IndexError: the name has no first word.\<close>

definition known_profiles :: "yval \<Rightarrow> yval list \<Rightarrow> py_error + yval list" where
  "known_profiles data suspect_ids =
     bind_r (py_get data ''victim'' (YDict [])) (\<lambda>victim_data.
     bind_r (py_get victim_data ''id'' (YStr [])) (\<lambda>vid.
     bind_r (py_lower vid) (\<lambda>victim_id.
     bind_r (py_get victim_data ''name'' (YStr [])) (\<lambda>vname.
     bind_r (case vname of YStr s \<Rightarrow> Inr (split_ws s) | _ \<Rightarrow> Inl AttributeError) (\<lambda>parts.
     bind_r (case parts of [] \<Rightarrow> Inl IndexError | first # others \<Rightarrow> Inr (lower first)) (\<lambda>victim_name.
     Inr (suspect_ids @
          filter (\<lambda>v. v \<noteq> YStr []) [YStr ''victim'', YStr victim_id, YStr victim_name])))))))"

text \<open>Lines 313-321: one entry of \<open>dna\<close>.\<close>

definition dna_entry :: "string list \<Rightarrow> yval list \<Rightarrow> string \<times> yval \<Rightarrow> result \<Rightarrow> py_error + result" where
  "dna_entry rooms profiles entry r =
     (let room_id = fst entry; names = snd entry;
          r = err_if (room_id \<notin> set rooms) (DnaRoomMissing room_id) r in
      case names of
        YList ns \<Rightarrow>
          for_each ns (\<lambda>name r. bind_r (in_set name profiles)
            (\<lambda>known. Inr (warn_if (\<not> known) (DnaUnknownProfile name room_id) r))) r
      | _ \<Rightarrow> Inr (err (DnaNotList room_id names) r))"

text \<open>Lines 326-327: the rooms whose DNA list holds the killer.\<close>

definition killer_dna_rooms :: "yval \<Rightarrow> (string \<times> yval) list \<Rightarrow> yval list" where
  "killer_dna_rooms killer_id entries =
     map (\<lambda>entry. YStr (fst entry))
       (filter (\<lambda>entry. case snd entry of YList ns \<Rightarrow> in_list killer_id ns | _ \<Rightarrow> False) entries)"

definition check_evidence_ids :: "set_order \<Rightarrow> yval \<Rightarrow> string list \<Rightarrow> yval list \<Rightarrow> yval \<Rightarrow> result
    \<Rightarrow> py_error + result" where
  "check_evidence_ids order data rooms suspect_ids killer_id r =
     bind_r (py_get data ''evidence'' (YDict [])) (\<lambda>evidence.
     bind_r (py_get evidence ''physical_evidence'' (YDict [])) (\<lambda>phys_ev.
     bind_r (key_set phys_ev) (\<lambda>phys_ev_ids.
     bind_r (py_get data ''solution'' (YDict [])) (\<lambda>solution.
     bind_r (py_get evidence ''physical_discovery'' (YDict [])) (\<lambda>discovery.
     bind_r (py_items discovery) (\<lambda>discovery_entries.
     bind_r (for_each discovery_entries (discovery_entry rooms phys_ev_ids) r) (\<lambda>r.
     bind_r (py_get data ''map'' (YDict [])) (\<lambda>the_map.
     bind_r (py_items the_map) (\<lambda>map_entries.
     bind_r (for_each map_entries (interactables_entry phys_ev_ids) r) (\<lambda>r.
     bind_r (discoverable_set discovery_entries) (\<lambda>discoverable.
     let r = warn_all (never_discoverable_warnings order phys_ev_ids discoverable) r in
     bind_r (if is_dict solution then
          bind_r (py_get solution ''key_evidence'' (YList [])) (\<lambda>key_evidence.
          bind_r (py_iter key_evidence) (\<lambda>evs.
          for_each evs (\<lambda>ev_id r. bind_r (in_strs ev_id phys_ev_ids)
            (\<lambda>declared. Inr (err_if (\<not> declared) (KeyEvidenceUndeclared ev_id) r))) r))
        else Inr r) (\<lambda>r.
     bind_r (py_get evidence ''all_locations'' (YList [])) (\<lambda>all_locations.
     bind_r (py_iter all_locations) (\<lambda>locs.
     bind_r (for_each locs (\<lambda>loc r. bind_r (in_strs loc rooms)
            (\<lambda>known. Inr (err_if (\<not> known) (AllLocationsMissingRoom loc) r))) r) (\<lambda>r.
     bind_r (known_profiles data suspect_ids) (\<lambda>profiles.
     bind_r (py_get evidence ''dna'' (YDict [])) (\<lambda>dna.
     bind_r (py_items dna) (\<lambda>dna_entries.
     bind_r (for_each dna_entries (dna_entry rooms profiles) r) (\<lambda>r.
     bind_r (py_get data ''murderLocation'' YNull) (\<lambda>murder_loc.
     Inr (warn_if (truthy murder_loc \<and> truthy killer_id
                   \<and> \<not> in_list murder_loc (killer_dna_rooms killer_id dna_entries))
            (KillerNoDna killer_id murder_loc) r)))))))))))))))))))))"


subsection \<open>check\_secret\_triggers (lines 332-395)\<close>

text \<open>\<open>isinstance(mp, (int, float))\<close>: an integer or a boolean (the model has no floats).\<close>

definition is_number :: "yval \<Rightarrow> bool" where
  "is_number v = (py_num v \<noteq> None)"

text \<open>
  \<open>a <= b\<close>: numbers by value, strings by code points, lists lexicographically (the
  first pair of unequal elements decides); every other pair of types raises TypeError.
\<close>

fun str_le :: "string \<Rightarrow> string \<Rightarrow> bool" where
  "str_le [] t = True"
| "str_le (c # cs) [] = False"
| "str_le (c # cs) (d # ds) =
     (if c = d then str_le cs ds else (of_char c :: nat) < of_char d)"

fun py_le :: "yval \<Rightarrow> yval \<Rightarrow> py_error + bool"
  and list_le :: "yval list \<Rightarrow> yval list \<Rightarrow> py_error + bool" where
  "py_le (YStr s) b = (case b of YStr t \<Rightarrow> Inr (str_le s t) | _ \<Rightarrow> Inl TypeError)"
| "py_le (YList xs) b = (case b of YList ys \<Rightarrow> list_le xs ys | _ \<Rightarrow> Inl TypeError)"
| "py_le (YBool x) b =
     (case py_num b of Some n \<Rightarrow> Inr ((if x then 1 else 0) \<le> n) | None \<Rightarrow> Inl TypeError)"
| "py_le (YInt m) b = (case py_num b of Some n \<Rightarrow> Inr (m \<le> n) | None \<Rightarrow> Inl TypeError)"
| "py_le YNull b = Inl TypeError"
| "py_le (YDict kvs) b = Inl TypeError"
| "list_le [] ys = Inr True"
| "list_le (x # xs) [] = Inr False"
| "list_le (x # xs) (y # ys) = (if py_eq x y then list_le xs ys else py_le x y)"

text \<open>Lines 355-360: one entry of \<open>requiresEvidence\<close>.\<close>

definition requires_evidence_entry :: "string list \<Rightarrow> yval \<Rightarrow> yval \<Rightarrow> yval \<Rightarrow> result \<Rightarrow> py_error + result" where
  "requires_evidence_entry valid_flat_ids sid sec_id req r =
     bind_r (py_in (YStr ''.'') req) (\<lambda>dotted.
     if dotted then Inr (err (RequiresEvidenceDot sid sec_id req) r)
     else bind_r (in_strs req valid_flat_ids)
            (\<lambda>valid. Inr (err_if (\<not> valid) (RequiresEvidenceUndeclared sid sec_id req) r)))"

text \<open>Lines 363-366: one entry of \<open>requiresSecrets\<close>.\<close>

definition requires_secrets_entry :: "yval list \<Rightarrow> yval \<Rightarrow> yval \<Rightarrow> yval \<Rightarrow> result \<Rightarrow> py_error + result" where
  "requires_secrets_entry all_secret_ids_flat sid sec_id req r =
     bind_r (in_set req all_secret_ids_flat)
       (\<lambda>known. Inr (err_if (\<not> known) (RequiresSecretsUnknown sid sec_id req) r))"

text \<open>Lines 369-370: the self-reference check of one secret.\<close>

definition self_reference :: "yval \<Rightarrow> yval \<Rightarrow> yval \<Rightarrow> result \<Rightarrow> py_error + result" where
  "self_reference trigger sid sec_id r =
     bind_r (py_get trigger ''requiresSecrets'' (YList [])) (\<lambda>required.
     bind_r (py_in sec_id required) (\<lambda>listed.
     Inr (err_if listed (SelfReference sid sec_id) r)))"

text \<open>Lines 373-379.\<close>

definition check_min_pressure :: "yval \<Rightarrow> yval \<Rightarrow> yval \<Rightarrow> result \<Rightarrow> py_error + result" where
  "check_min_pressure trigger sid sec_id r =
     bind_r (py_get trigger ''minPressure'' YNull) (\<lambda>mp.
     let r = err_if (mp \<noteq> YNull \<and> \<not> is_number mp) (MinPressureNotNumber sid sec_id mp) r in
     Inr (warn_if (case py_num mp of Some n \<Rightarrow> n > 80 | None \<Rightarrow> False) (MinPressureHigh sid sec_id mp) r))"

text \<open>The body of the loop of line 350.\<close>

definition check_secret :: "string list \<Rightarrow> yval list \<Rightarrow> yval \<Rightarrow> yval \<Rightarrow> result \<Rightarrow> py_error + result" where
  "check_secret valid_flat_ids all_secret_ids_flat sid secret r =
     bind_r (py_subscript secret ''id'') (\<lambda>sec_id.
     bind_r (py_get secret ''trigger'' (YDict [])) (\<lambda>trigger.
     bind_r (py_get trigger ''requiresEvidence'' (YList [])) (\<lambda>required_evidence.
     bind_r (py_iter required_evidence) (\<lambda>reqs.
     bind_r (for_each reqs (requires_evidence_entry valid_flat_ids sid sec_id) r) (\<lambda>r.
     bind_r (py_get trigger ''requiresSecrets'' (YList [])) (\<lambda>required_secrets.
     bind_r (py_iter required_secrets) (\<lambda>reqs.
     bind_r (for_each reqs (requires_secrets_entry all_secret_ids_flat sid sec_id) r) (\<lambda>r.
     bind_r (self_reference trigger sid sec_id r) (\<lambda>r.
     check_min_pressure trigger sid sec_id r)))))))))"

text \<open>
  The body of the loop of line 346. Line 348 looks the suspect up in \<open>all_secret_ids\<close>;
  the id was stored there by \<open>collect_all_secret_ids\<close>, and the value is not used.
\<close>

definition check_suspect_secrets :: "string list \<Rightarrow> (yval \<times> yval list) list \<Rightarrow> yval list \<Rightarrow> yval
    \<Rightarrow> result \<Rightarrow> py_error + result" where
  "check_suspect_secrets valid_flat_ids all_secret_ids all_secret_ids_flat suspect r =
     bind_r (py_subscript suspect ''id'') (\<lambda>sid.
     bind_r (pd_lookup all_secret_ids sid []) (\<lambda>own_secret_ids.
     bind_r (py_get suspect ''secrets'' (YList [])) (\<lambda>secrets.
     bind_r (py_iter secrets) (\<lambda>secs.
     for_each secs (check_secret valid_flat_ids all_secret_ids_flat sid) r))))"

text \<open>Lines 385-387: the pressure of every secret of one suspect.\<close>

definition secret_pressures :: "yval list \<Rightarrow> py_error + (yval \<times> yval) list" where
  "secret_pressures secs =
     for_each secs
       (\<lambda>secret pressures.
          bind_r (py_get secret ''trigger'' (YDict [])) (\<lambda>trigger.
          bind_r (py_get trigger ''minPressure'' (YInt 0)) (\<lambda>mp.
          bind_r (py_subscript secret ''id'') (\<lambda>sec_id.
          pd_store sec_id mp pressures)))) []"

text \<open>Lines 392-395: one required secret of a secret, against the pressures of the suspect.\<close>

definition pressure_entry :: "(yval \<times> yval) list \<Rightarrow> yval \<Rightarrow> yval \<Rightarrow> yval \<Rightarrow> yval \<Rightarrow> result
    \<Rightarrow> py_error + result" where
  "pressure_entry pressures sid sec_id sec_mp req r =
     bind_r (pd_lookup pressures req YNull) (\<lambda>req_mp.
     if req_mp \<noteq> YNull then
       bind_r (py_le sec_mp req_mp)
         (\<lambda>below. Inr (warn_if below (PressureOrder sid sec_id sec_mp req req_mp) r))
     else Inr r)"

text \<open>The body of the loop of line 382.\<close>

definition check_pressure_order :: "yval \<Rightarrow> result \<Rightarrow> py_error + result" where
  "check_pressure_order suspect r =
     bind_r (py_subscript suspect ''id'') (\<lambda>sid.
     bind_r (py_get suspect ''secrets'' (YList [])) (\<lambda>secrets.
     bind_r (py_iter secrets) (\<lambda>secs.
     bind_r (secret_pressures secs) (\<lambda>pressures.
     for_each secs
       (\<lambda>secret r.
          bind_r (py_subscript secret ''id'') (\<lambda>sec_id.
          bind_r (pd_lookup pressures sec_id (YInt 0)) (\<lambda>sec_mp.
          bind_r (py_get secret ''trigger'' (YDict [])) (\<lambda>trigger.
          bind_r (py_get trigger ''requiresSecrets'' (YList [])) (\<lambda>required.
          bind_r (py_iter required) (\<lambda>reqs.
          for_each reqs (pressure_entry pressures sid sec_id sec_mp) r)))))) r))))"

definition check_secret_triggers :: "yval \<Rightarrow> string list \<Rightarrow> result \<Rightarrow> py_error + result" where
  "check_secret_triggers data rooms r =
     bind_r (py_get data ''evidence'' (YDict [])) (\<lambda>evidence.
     bind_r (py_get evidence ''physical_evidence'' (YDict [])) (\<lambda>phys_ev.
     bind_r (key_set phys_ev) (\<lambda>phys_ev_ids.
     bind_r (py_get evidence ''digital_logs'' (YDict [])) (\<lambda>digital_logs.
     bind_r (key_set digital_logs) (\<lambda>digital_log_ids.
     bind_r (py_get evidence ''footage'' (YDict [])) (\<lambda>footage.
     bind_r (key_set footage) (\<lambda>footage_ids.
     let valid_flat_ids = phys_ev_ids @ digital_log_ids @ footage_ids @ rooms in
     bind_r (collect_all_secret_ids data) (\<lambda>all_secret_ids.
     let all_secret_ids_flat = concat (map snd all_secret_ids) in
     bind_r (py_get data ''suspects'' (YList [])) (\<lambda>suspects.
     bind_r (py_iter suspects) (\<lambda>elems.
     bind_r (for_each elems
        (check_suspect_secrets valid_flat_ids all_secret_ids all_secret_ids_flat) r) (\<lambda>r.
     for_each elems check_pressure_order r)))))))))))"

subsection \<open>check\_assets (lines 398-415)\<close>

definition project_root :: string where
  "project_root = ''/home/henry/Coding/Node/SherbotV2''"

text \<open>
  Lines 400-406. \<open>exists\<close> is the state of the file system: the paths for which
  \<open>os.path.exists\<close> holds. The relative path starts with no slash, so \<open>os.path.join\<close>
  puts the three parts one after the other with slashes between them.
\<close>

definition check_asset :: "(string \<Rightarrow> bool) \<Rightarrow> yval \<Rightarrow> yval \<Rightarrow> result \<Rightarrow> py_error + result" where
  "check_asset exists asset_path context r =
     (if \<not> truthy asset_path then Inr r
      else case asset_path of
        YStr p \<Rightarrow>
          let relative_path = dropWhile (\<lambda>c. c = CHR ''/'') p;
              full_path = project_root @ ''/'' @ ''public'' @ ''/'' @ relative_path
          in Inr (err_if (\<not> exists full_path) (ResourceNotFound context asset_path full_path) r)
      | _ \<Rightarrow> Inl AttributeError)"

definition check_assets :: "(string \<Rightarrow> bool) \<Rightarrow> yval \<Rightarrow> result \<Rightarrow> py_error + result" where
  "check_assets exists data r =
     bind_r (py_get data ''victim'' (YDict [])) (\<lambda>victim.
     bind_r (py_get victim ''avatar'' YNull) (\<lambda>avatar.
     bind_r (check_asset exists avatar VictimAvatar r) (\<lambda>r.
     bind_r (py_get data ''suspects'' (YList [])) (\<lambda>suspects.
     bind_r (py_iter suspects) (\<lambda>elems.
     bind_r (for_each elems
        (\<lambda>suspect r.
           bind_r (py_get suspect ''avatar'' YNull) (\<lambda>avatar.
           bind_r (py_subscript suspect ''id'') (\<lambda>sid.
           check_asset exists avatar (SuspectAvatar sid) r))) r) (\<lambda>r.
     bind_r (py_get data ''map'' (YDict [])) (\<lambda>the_map.
     bind_r (py_items the_map) (\<lambda>entries.
     for_each entries
       (\<lambda>entry r.
          case snd entry of
            YDict kvs \<Rightarrow>
              (case map_of kvs ''image'' of
                 Some img \<Rightarrow> check_asset exists img (RoomImage (fst entry)) r
               | None \<Rightarrow> Inr r)
          | _ \<Rightarrow> Inr r) r))))))))"


subsection \<open>json.dumps (line 468)\<close>

text \<open>
  \<open>json.dumps\<close> with its defaults: items separated by a comma and a space, keys from
  values by a colon and a space, and every character outside the printable ASCII range
  escaped (\<open>ensure_ascii\<close>).
\<close>

definition digit_char :: "nat \<Rightarrow> char" where
  "digit_char d = char_of (if d < 10 then 48 + d else 87 + d)"

fun nat_digits :: "nat \<Rightarrow> nat \<Rightarrow> string" where
  "nat_digits 0 n = []"
| "nat_digits (Suc fuel) n =
     (if n < 10 then [digit_char n] else nat_digits fuel (n div 10) @ [digit_char (n mod 10)])"

text \<open>A number below \<open>10 ^ k\<close> has at most \<open>k\<close> digits, so \<open>Suc n\<close> rounds are enough for \<open>n\<close>.\<close>

definition str_nat :: "nat \<Rightarrow> string" where
  "str_nat n = nat_digits (Suc n) n"

definition str_int :: "int \<Rightarrow> string" where
  "str_int i = (if i < 0 then CHR ''-'' # str_nat (nat (- i)) else str_nat (nat i))"

definition hex4 :: "nat \<Rightarrow> string" where
  "hex4 n = [digit_char (n div 4096 mod 16), digit_char (n div 256 mod 16),
             digit_char (n div 16 mod 16), digit_char (n mod 16)]"

definition json_escape_char :: "char \<Rightarrow> string" where
  "json_escape_char c =
     (let n = (of_char c :: nat) in
      if n = 34 then [CHR 0x5C, CHR 0x22]
      else if n = 92 then [CHR 0x5C, CHR 0x5C]
      else if n = 10 then [CHR 0x5C, CHR ''n'']
      else if n = 13 then [CHR 0x5C, CHR ''r'']
      else if n = 9 then [CHR 0x5C, CHR ''t'']
      else if n = 8 then [CHR 0x5C, CHR ''b'']
      else if n = 12 then [CHR 0x5C, CHR ''f'']
      else if 32 \<le> n \<and> n \<le> 126 then [c]
      else [CHR 0x5C, CHR ''u''] @ hex4 n)"

definition json_string :: "string \<Rightarrow> string" where
  "json_string s = [CHR 0x22] @ concat (map json_escape_char s) @ [CHR 0x22]"

fun join_with :: "string \<Rightarrow> string list \<Rightarrow> string" where
  "join_with sep [] = []"
| "join_with sep [x] = x"
| "join_with sep (x # y # ys) = x @ sep @ join_with sep (y # ys)"

fun json_dumps :: "yval \<Rightarrow> string" where
  "json_dumps YNull = ''null''"
| "json_dumps (YBool b) = (if b then ''true'' else ''false'')"
| "json_dumps (YInt i) = str_int i"
| "json_dumps (YStr s) = json_string s"
| "json_dumps (YList xs) = ''['' @ join_with '', '' (map json_dumps xs) @ '']''"
| "json_dumps (YDict kvs) =
     ''{'' @ join_with '', '' (map (\<lambda>kv. json_string (fst kv) @ '': '' @ json_dumps (snd kv)) kvs) @ ''}''"

subsection \<open>check\_narrative\_consistency (lines 418-471)\<close>

text \<open>Line 422: the dictionary from suspect id to suspect.\<close>

definition suspects_by_id :: "yval list \<Rightarrow> py_error + (yval \<times> yval) list" where
  "suspects_by_id elems =
     for_each elems (\<lambda>s d. bind_r (py_subscript s ''id'') (\<lambda>sid. pd_store sid s d)) []"

text \<open>\<open>k in d\<close> for a dictionary built by the checks.\<close>

definition pd_member :: "yval \<Rightarrow> (yval \<times> 'v) list \<Rightarrow> py_error + bool" where
  "pd_member k d = (if hashable k then Inr (pd_get d k \<noteq> None) else Inl TypeError)"

text \<open>\<open>secret.get('trigger', {}).get('requiresEvidence', [])\<close>, iterated.\<close>

definition required_evidence :: "yval \<Rightarrow> py_error + yval list" where
  "required_evidence secret =
     bind_r (py_get secret ''trigger'' (YDict [])) (\<lambda>trigger.
     bind_r (py_get trigger ''requiresEvidence'' (YList [])) py_iter)"

text \<open>Lines 428-430.\<close>

definition all_required_evidence :: "yval list \<Rightarrow> py_error + yval list" where
  "all_required_evidence elems =
     for_each elems
       (\<lambda>suspect s.
          bind_r (py_get suspect ''secrets'' (YList [])) (\<lambda>secrets.
          bind_r (py_iter secrets) (\<lambda>secs.
          for_each secs (\<lambda>secret s. bind_r (required_evidence secret) (\<lambda>evs. set_update evs s)) s))) []"

text \<open>
  \<open>any(p(x) for x in xs)\<close> stops at the first element that satisfies \<open>p\<close>: the
  elements after it are not evaluated and cannot raise.
\<close>

fun any_of :: "'a list \<Rightarrow> ('a \<Rightarrow> py_error + bool) \<Rightarrow> py_error + bool" where
  "any_of [] p = Inr False"
| "any_of (x # xs) p = bind_r (p x) (\<lambda>b. if b then Inr True else any_of xs p)"

text \<open>Lines 442-446: the nested generator, secret by secret.\<close>

definition killer_requires_murder_ev :: "yval list \<Rightarrow> yval list \<Rightarrow> py_error + bool" where
  "killer_requires_murder_ev murder_evidence killer_secrets =
     any_of killer_secrets
       (\<lambda>s. bind_r (required_evidence s) (\<lambda>evs. any_of evs (\<lambda>ev. in_set ev murder_evidence)))"

text \<open>Lines 438-448.\<close>

definition check_murder_scene :: "yval \<Rightarrow> yval \<Rightarrow> (yval \<times> yval) list \<Rightarrow> yval \<Rightarrow> result
    \<Rightarrow> py_error + result" where
  "check_murder_scene killer_id murder_loc suspects evidence r =
     bind_r (if truthy killer_id \<and> truthy murder_loc then pd_member killer_id suspects else Inr False)
       (\<lambda>applies.
     if \<not> applies then Inr r
     else
       bind_r (case pd_get suspects killer_id of Some s \<Rightarrow> Inr s | None \<Rightarrow> Inl KeyError) (\<lambda>killer.
       bind_r (py_get killer ''secrets'' (YList [])) (\<lambda>killer_secrets.
       bind_r (py_get evidence ''physical_discovery'' (YDict [])) (\<lambda>phys_discovery.
       bind_r (py_get_val phys_discovery murder_loc (YList [])) (\<lambda>found.
       bind_r (py_iter found) (\<lambda>evs.
       bind_r (set_update evs []) (\<lambda>murder_evidence.
       bind_r (py_iter killer_secrets) (\<lambda>secs.
       bind_r (killer_requires_murder_ev murder_evidence secs) (\<lambda>required.
       Inr (warn_if (\<not> required \<and> murder_evidence \<noteq> []) (KillerNoMurderSceneSecret killer_id) r))))))))))"

text \<open>Lines 451-456.\<close>

definition check_confession :: "yval \<Rightarrow> (yval \<times> yval) list \<Rightarrow> result \<Rightarrow> py_error + result" where
  "check_confession killer_id suspects r =
     bind_r (if truthy killer_id then pd_member killer_id suspects else Inr False) (\<lambda>applies.
     if \<not> applies then Inr r
     else
       bind_r (case pd_get suspects killer_id of Some s \<Rightarrow> Inr s | None \<Rightarrow> Inl KeyError) (\<lambda>killer.
       bind_r (py_get killer ''secrets'' (YList [])) (\<lambda>killer_secrets.
       bind_r (py_iter killer_secrets) (\<lambda>secs.
       bind_r (any_of secs
          (\<lambda>s. bind_r (py_subscript s ''id'') (\<lambda>sec_id.
                bind_r (py_lower sec_id) (\<lambda>low_id.
                if substring ''confession'' low_id then Inr True
                else bind_r (py_get s ''text'' (YStr [])) (\<lambda>txt.
                     bind_r (py_lower txt) (\<lambda>low_text. Inr (substring ''confess'' low_text)))))))
         (\<lambda>has_terminal.
       Inr (warn_if (\<not> has_terminal) (KillerNoConfession killer_id) r))))))"

text \<open>Lines 466-471.\<close>

definition check_win_conditions :: "yval \<Rightarrow> (yval \<times> yval) list \<Rightarrow> yval \<Rightarrow> result \<Rightarrow> py_error + result" where
  "check_win_conditions killer_id suspects data r =
     bind_r (py_get data ''win_conditions'' (YDict [])) (\<lambda>wc.
     if truthy wc \<and> truthy killer_id then
       (let wc_text = lower (json_dumps wc) in
        bind_r (pd_lookup suspects killer_id (YDict [])) (\<lambda>killer.
        bind_r (py_get killer ''name'' (YStr [])) (\<lambda>name.
        bind_r (py_lower name) (\<lambda>killer_name.
        bind_r (py_lower killer_id) (\<lambda>killer_low.
        Inr (warn_if (\<not> substring killer_low wc_text \<and> \<not> substring killer_name wc_text)
               (WinConditionsSilent killer_id) r))))))
     else Inr r)"

definition check_narrative_consistency :: "yval \<Rightarrow> result \<Rightarrow> py_error + result" where
  "check_narrative_consistency data r =
     bind_r (py_get data ''solution'' YNull) (\<lambda>sol.
     let solution = (if is_dict sol then sol else YDict []) in
     bind_r (py_get solution ''killer'' YNull) (\<lambda>killer_id.
     bind_r (py_get data ''suspects'' (YList [])) (\<lambda>suspect_list.
     bind_r (py_iter suspect_list) (\<lambda>elems.
     bind_r (suspects_by_id elems) (\<lambda>suspects.
     bind_r (py_get data ''evidence'' (YDict [])) (\<lambda>evidence.
     bind_r (py_get evidence ''physical_evidence'' (YDict [])) (\<lambda>phys_ev.
     bind_r (key_set phys_ev) (\<lambda>phys_ev_ids.
     bind_r (all_required_evidence elems) (\<lambda>required.
     bind_r (py_get solution ''key_evidence'' (YList [])) (\<lambda>key_evidence.
     bind_r (py_iter key_evidence) (\<lambda>evs.
     bind_r (for_each evs (\<lambda>ev_id r. bind_r (in_set ev_id required)
            (\<lambda>used. Inr (warn_if (\<not> used) (KeyEvidenceNeverRequired ev_id) r))) r) (\<lambda>r.
     bind_r (py_get data ''murderLocation'' YNull) (\<lambda>murder_loc.
     bind_r (check_murder_scene killer_id murder_loc suspects evidence r) (\<lambda>r.
     bind_r (check_confession killer_id suspects r) (\<lambda>r.
     bind_r (py_get evidence ''initial_police_statements'' (YDict [])) (\<lambda>statements.
     bind_r (for_each elems
        (\<lambda>suspect r. bind_r (py_subscript suspect ''id'') (\<lambda>sid.
                      bind_r (py_in sid statements)
                        (\<lambda>stated. Inr (warn_if (\<not> stated) (NoPoliceStatement sid) r)))) r) (\<lambda>r.
     check_win_conditions killer_id suspects data r)))))))))))))))))"

section \<open>Main entry (validate\_case, lines 488-514)\<close>

text \<open>
  The checks of one run on the text of the case file and the tree parsed from it, in
  the order of lines 491-509, and the two reads of the report header (lines 512-514).
  The result is the collector the report is printed from, or the exception that ended
  the run before any report. \<open>order\<close> is the set iteration order of the run and
  \<open>exists\<close> the state of the file system.
\<close>

definition run_checks :: "set_order \<Rightarrow> (string \<Rightarrow> bool) \<Rightarrow> string \<Rightarrow> yval \<Rightarrow> py_error + result" where
  "run_checks order exists raw_text data =
     (let r = new_result\<lparr>errors := check_duplicate_keys_raw raw_text\<rparr> in
      bind_r (check_schema data r) (\<lambda>r.
      bind_r (check_map order data r) (\<lambda>map_res.
      let rooms = fst (fst map_res) in
      bind_r (check_suspects_and_solution data rooms (snd map_res)) (\<lambda>sus_res.
      let suspect_ids = fst (fst sus_res); killer_id = fst (snd (fst sus_res)) in
      bind_r (check_evidence_ids order data rooms suspect_ids killer_id (snd sus_res)) (\<lambda>r.
      bind_r (check_secret_triggers data rooms r) (\<lambda>r.
      bind_r (check_assets exists data r) (\<lambda>r.
      bind_r (check_narrative_consistency data r) (\<lambda>r.
      bind_r (py_get data ''id'' (YStr ''unknown'')) (\<lambda>case_id.
      bind_r (py_get data ''name'' (YStr ''Unknown'')) (\<lambda>name.
      Inr r))))))))))"


section \<open>Vocabulary of the statements about the scanner\<close>

text \<open>
  The texts the statements speak about. \<open>join_lines\<close> puts a line feed between
  lines. A plain key is an unquoted key as the scanner reads it back: not empty, free
  of white space and colons, not starting with a quote, \<open>#\<close> or \<open>{\<close> and not ending
  with a quote. \<open>key_line n k rest\<close> is the line \<open>k:rest\<close> indented by \<open>n\<close> spaces,
  \<open>item_line n k rest\<close> the list item \<open>- k:rest\<close> at that indentation, and
  \<open>item_lines n it\<close> a list item with its first key on the dash line and its other keys
  two columns deeper.
\<close>

abbreviation LF :: char where "LF \<equiv> CHR 0x0A"

fun join_lines :: "string list \<Rightarrow> string" where
  "join_lines [] = []"
| "join_lines [l] = l"
| "join_lines (l # m # ls) = l @ LF # join_lines (m # ls)"

definition plain_key :: "string \<Rightarrow> bool" where
  "plain_key k = (k \<noteq> [] \<and> list_all (\<lambda>c. \<not> is_space c \<and> c \<noteq> CHR '':'') k
     \<and> hd k \<notin> {squote, dquote, CHR ''#'', CHR ''{''} \<and> last k \<notin> {squote, dquote})"

definition one_line :: "string \<Rightarrow> bool" where
  "one_line s = list_all (\<lambda>c. \<not> is_linebreak c) s"

definition key_line :: "nat \<Rightarrow> string \<Rightarrow> string \<Rightarrow> string" where
  "key_line n k rest = replicate n CHR '' '' @ k @ '':'' @ rest"

definition item_line :: "nat \<Rightarrow> string \<Rightarrow> string \<Rightarrow> string" where
  "item_line n k rest = replicate n CHR '' '' @ ''- '' @ k @ '':'' @ rest"

text \<open>What a key line may leave on top of the scope it wrote to: nothing, or the scope it opened.\<close>

definition pushed :: "int \<Rightarrow> scope list \<Rightarrow> bool" where
  "pushed m push = (push = [] \<or> push = [(m, False, [])])"

fun item_lines :: "nat \<Rightarrow> (string \<times> string) list \<Rightarrow> string list" where
  "item_lines n [] = []"
| "item_lines n ((k, r) # others) = item_line n k r # map (\<lambda>(k', r'). key_line (n + 2) k' r') others"

definition item_ok :: "(string \<times> string) list \<Rightarrow> bool" where
  "item_ok it = (it \<noteq> [] \<and> distinct (map fst it) \<and> list_all (\<lambda>(k, r). plain_key k \<and> one_line r) it)"

section \<open>Vocabulary of the statements about the checks\<close>





section \<open>Vocabulary of the statements about the suspects and the solution\<close>

text \<open>
  The words of the specification. A suspect is declared under an id when some element
  of the suspect list carries an id equal to it. A role is unassigned when its id is the
  sentinel \<open>none\<close>. A flag is the truth value of the suspect's field, false when the
  field is absent. A flag disagrees with a role in two ways: the role holder is not
  flagged, or a suspect who does not hold the role is flagged.
\<close>

definition declared :: "yval list \<Rightarrow> yval \<Rightarrow> bool" where
  "declared elems x =
     list_ex (\<lambda>s. case py_subscript s ''id'' of Inr i \<Rightarrow> py_eq i x | Inl e \<Rightarrow> False) elems"


definition flag_of :: "yval \<Rightarrow> string \<Rightarrow> bool" where
  "flag_of s name = (case py_get s name YNull of Inr v \<Rightarrow> truthy v | Inl e \<Rightarrow> False)"

definition mismatch :: "bool \<Rightarrow> bool \<Rightarrow> msg \<Rightarrow> msg \<Rightarrow> msg list" where
  "mismatch holder flagged holder_unflagged flagged_not_holder =
     (if holder \<and> \<not> flagged then [holder_unflagged]
      else if flagged \<and> \<not> holder then [flagged_not_holder]
      else [])"

definition flag_mismatches :: "yval \<times> yval \<times> yval \<Rightarrow> yval \<Rightarrow> msg list" where
  "flag_mismatches roles s =
     (case py_subscript s ''id'' of
        Inl e \<Rightarrow> []
      | Inr sid \<Rightarrow>
          mismatch (py_eq sid (fst roles)) (flag_of s ''isGuilty'')
            (KillerNotGuilty sid) (GuiltyNotKiller sid)
          @ mismatch (py_eq sid (fst (snd roles))) (flag_of s ''isAccomplice'')
            (AccompliceNotFlagged sid) (FlaggedNotAccomplice sid)
          @ mismatch (py_eq sid (snd (snd roles))) (flag_of s ''isSilentWitness'')
            (SilentWitnessNotFlagged sid) (FlaggedNotSilentWitness sid))"


text \<open>The messages of lines 218-233 and of lines 199-203, by their lines.\<close>

fun is_flag_error :: "msg \<Rightarrow> bool" where
  "is_flag_error (Msg n vs) = (n \<in> {218, 221, 225, 227, 231, 233})"

fun is_role_error :: "msg \<Rightarrow> bool" where
  "is_role_error (Msg n vs) = (n \<in> {199, 201, 203})"



section \<open>Vocabulary of the statements about the secret triggers\<close>



definition required_secrets :: "yval \<Rightarrow> yval list" where
  "required_secrets secret =
     (case bind_r (py_get secret ''trigger'' (YDict []))
             (\<lambda>trigger. bind_r (py_get trigger ''requiresSecrets'' (YList [])) py_iter) of
        Inr reqs \<Rightarrow> reqs
      | Inl e \<Rightarrow> [])"








section \<open>Vocabulary of the statements about the narrative checks\<close>

text \<open>The warning of line 471, by its line.\<close>

fun is_win_conditions_warning :: "msg \<Rightarrow> bool" where
  "is_win_conditions_warning (Msg n vs) = (n = 471)"

text \<open>
  A document whose killer \<open>s1\<close> is a declared suspect without a name, and whose win
  conditions mention neither the id nor any name.
\<close>

definition nameless_killer :: yval where
  "nameless_killer = YDict
     [(''suspects'', YList [YDict [(''id'', YStr ''s1'')]]),
      (''solution'', YDict [(''killer'', YStr ''s1'')]),
      (''win_conditions'', YDict [(''goal'', YStr ''Identify the culprit'')])]"


section \<open>Vocabulary of the statements about a whole run\<close>

text \<open>
  A document whose victim has an id and no name, and a document one of whose suspects
  has a name and no id. Both are otherwise small and regular.
\<close>

definition victim_without_name :: yval where
  "victim_without_name = YDict
     [(''id'', YStr ''case1''), (''name'', YStr ''The Case''),
      (''victim'', YDict [(''id'', YStr ''v1'')]),
      (''map'', YDict [(''hall'', YDict [])]),
      (''suspects'', YList [YDict [(''id'', YStr ''s1''), (''isGuilty'', YBool True)]]),
      (''solution'', YDict [(''killer'', YStr ''s1'')])]"

definition suspect_without_id :: yval where
  "suspect_without_id = YDict
     [(''id'', YStr ''case1''), (''name'', YStr ''The Case''),
      (''victim'', YDict [(''id'', YStr ''v1''), (''name'', YStr ''Ann Lee'')]),
      (''map'', YDict [(''hall'', YDict [])]),
      (''suspects'', YList [YDict [(''name'', YStr ''Bob'')]]),
      (''solution'', YDict [(''killer'', YStr ''s1'')])]"

text \<open>The victim of the document has no first word in its name: absent, or without a name, or blank.\<close>

definition victim_nameless :: "yval \<Rightarrow> bool" where
  "victim_nameless data =
     (case py_get data ''victim'' (YDict []) of
        Inr victim \<Rightarrow>
          (case py_get victim ''name'' (YStr []) of
             Inr (YStr s) \<Rightarrow> split_ws s = []
           | _ \<Rightarrow> False)
      | Inl e \<Rightarrow> False)"

text \<open>
  The two warnings recorded while iterating over a set (lines 178 and 294), and the
  messages that are not among them.
\<close>

fun order_free :: "msg \<Rightarrow> bool" where
  "order_free (Msg n vs) = (n \<noteq> 178 \<and> n \<noteq> 294)"

text \<open>
  Two collectors hold the same messages when their errors are the same sequence, their
  warnings are the same up to order, and their warnings other than those of lines 178
  and 294 are the same sequence. Two outcomes agree when both are the same exception or
  both are values related by \<open>R\<close>.
\<close>

definition same_msgs :: "result \<Rightarrow> result \<Rightarrow> bool" where
  "same_msgs r r' = (errors r = errors r' \<and> mset (warnings r) = mset (warnings r')
     \<and> filter order_free (warnings r) = filter order_free (warnings r'))"

definition same_state :: "'a \<times> result \<Rightarrow> 'a \<times> result \<Rightarrow> bool" where
  "same_state s t = (fst s = fst t \<and> same_msgs (snd s) (snd t))"

definition agree :: "('a \<Rightarrow> 'a \<Rightarrow> bool) \<Rightarrow> py_error + 'a \<Rightarrow> py_error + 'a \<Rightarrow> bool" where
  "agree R a b =
     (case a of
        Inl e \<Rightarrow> b = Inl e
      | Inr x \<Rightarrow> (case b of Inl e \<Rightarrow> False | Inr y \<Rightarrow> R x y))"

definition valid_order :: "set_order \<Rightarrow> bool" where
  "valid_order order = (\<forall>xs. mset (order xs) = mset xs)"


section \<open>Vocabulary of the statements about set iteration order\<close>

text \<open>
  Two runs end alike: in the same exception, or each with a report, the two reports
  holding the same errors in the same order, the same warnings with the same
  repetitions, and the warnings that do not come from a loop over a set (lines 178
  and 294) in the same order.
\<close>

definition same_report :: "py_error + result \<Rightarrow> py_error + result \<Rightarrow> bool" where
  "same_report a b = agree same_msgs a b"

text \<open>
  A document with three rooms that are not connected: from the first room, \<open>hall\<close>,
  neither \<open>attic\<close> nor \<open>cellar\<close> is reachable.
\<close>

definition two_isolated_rooms :: yval where
  "two_isolated_rooms = YDict
     [(''id'', YStr ''case1''), (''name'', YStr ''The Case''),
      (''victim'', YDict [(''id'', YStr ''v1''), (''name'', YStr ''Ann Lee'')]),
      (''map'', YDict [(''hall'', YDict []), (''attic'', YDict []), (''cellar'', YDict [])]),
      (''suspects'', YList [YDict [(''id'', YStr ''s1''), (''isGuilty'', YBool True)]]),
      (''solution'', YDict [(''killer'', YStr ''s1'')])]"


section \<open>Properties of the raw-text duplicate-key scanner\<close>

lemma linebreak_space: "is_linebreak c \<Longrightarrow> is_space c"
  by (auto simp: is_linebreak_def is_space_def)

lemma splitlines_acc_line:
  "one_line l \<Longrightarrow> splitlines_acc False cur (l @ LF # rest) = (rev cur @ l) # splitlines_acc False [] rest"
  by (induction l arbitrary: cur) (auto simp: one_line_def is_linebreak_def)

lemma splitlines_acc_last':
  "one_line l \<Longrightarrow> cur @ l \<noteq> [] \<Longrightarrow> splitlines_acc False cur l = [rev cur @ l]"
  by (induction l arbitrary: cur) (auto simp: one_line_def)

lemma splitlines_acc_last:
  "one_line l \<Longrightarrow> l \<noteq> [] \<Longrightarrow> splitlines_acc False cur l = [rev cur @ l]"
  by (simp add: splitlines_acc_last')

lemma splitlines_join:
  "list_all one_line ls \<Longrightarrow> ls \<noteq> [] \<Longrightarrow> last ls \<noteq> [] \<Longrightarrow> splitlines (join_lines ls) = ls"
  unfolding splitlines_def
  by (induction ls rule: join_lines.induct) (auto simp: splitlines_acc_line splitlines_acc_last)

lemma dropWhile_spaces: "s \<noteq> [] \<Longrightarrow> \<not> is_space (hd s) \<Longrightarrow> dropWhile is_space (replicate n CHR '' '' @ s) = s"
  by (induction n) (auto simp: is_space_def neq_Nil_conv)

lemma plain_keyD:
  assumes "plain_key k"
  shows "k \<noteq> []" "\<not> is_space (hd k)" "\<not> is_space (last k)" "CHR '':'' \<notin> set k"
    "hd k \<noteq> squote" "hd k \<noteq> dquote" "hd k \<noteq> CHR ''#''" "hd k \<noteq> CHR ''{''" 
    "last k \<noteq> squote" "last k \<noteq> dquote" "\<forall>c\<in>set k. \<not> is_space c"
proof -
  from assms have ne: "k \<noteq> []" and all: "\<forall>c\<in>set k. \<not> is_space c \<and> c \<noteq> CHR '':''"
    and h: "hd k \<notin> {squote, dquote, CHR ''#'', CHR ''{''}" and l: "last k \<notin> {squote, dquote}"
    unfolding plain_key_def list_all_iff by blast+
  show "k \<noteq> []" by (rule ne)
  from ne all show "\<not> is_space (hd k)" by (meson hd_in_set)
  from ne all show "\<not> is_space (last k)" by (meson last_in_set)
  from all show "CHR '':'' \<notin> set k" by blast
  from h show "hd k \<noteq> squote" "hd k \<noteq> dquote" "hd k \<noteq> CHR ''#''" "hd k \<noteq> CHR ''{''" by simp_all
  from l show "last k \<noteq> squote" "last k \<noteq> dquote" by simp_all
  from all show "\<forall>c\<in>set k. \<not> is_space c" by blast
qed

lemma lstrip_key_line: "plain_key k \<Longrightarrow> lstrip (key_line n k rest) = k @ '':'' @ rest"
  unfolding lstrip_def key_line_def
  by (rule dropWhile_spaces) (auto dest: plain_keyD simp: hd_append)

lemma lstrip_item_line: "lstrip (item_line n k rest) = ''- '' @ k @ '':'' @ rest"
  unfolding lstrip_def item_line_def
  by (rule dropWhile_spaces) (auto simp: is_space_def)

lemma lstrip_plain: "plain_key k \<Longrightarrow> lstrip (k @ r) = k @ r"
  unfolding lstrip_def by (cases k) (auto dest: plain_keyD)

lemma rev_dropWhile_last: "k \<noteq> [] \<Longrightarrow> \<not> P (last k) \<Longrightarrow> rev (dropWhile P (rev k)) = k"
  by (cases k rule: rev_cases) auto

lemma extract_key_plain: "plain_key k \<Longrightarrow> extract_key (k @ '':'' @ rest) = k"
proof -
  assume pk: "plain_key k"
  then obtain c cs where k: "k = c # cs" by (cases k) (auto dest: plain_keyD)
  have mq: "match_quoted (k @ '':'' @ rest) = None"
    using plain_keyD(5,6)[OF pk] by (simp add: match_quoted_def k)
  have tw: "takeWhile (\<lambda>c. c \<noteq> CHR '':'') (k @ '':'' @ rest) = k"
    using plain_keyD(4)[OF pk] by (auto simp: takeWhile_tail)
  have s1: "strip k = k"
    unfolding strip_def rstrip_def lstrip_def
    using plain_keyD(1,2,3)[OF pk] by (simp add: k rev_dropWhile_last[of "c # cs" is_space, simplified])
  have s2: "strip_chars {squote, dquote} k = k"
    unfolding strip_chars_def
    using plain_keyD(1,5,6,9,10)[OF pk] rev_dropWhile_last[of k "\<lambda>c. c \<in> {squote, dquote}"]
    by (simp add: k)
  show ?thesis by (simp add: extract_key_def mq tw s1 s2 del: append.simps)
qed

lemma pop_scopes_keep: "fst s < indent \<Longrightarrow> pop_scopes indent (s # X) = s # X"
  by (cases X) auto

lemma pop_scopes_drop: "fst s \<ge> indent \<Longrightarrow> X \<noteq> [] \<Longrightarrow> pop_scopes indent (s # X) = pop_scopes indent X"
  by (cases X) auto

lemma pop_scopes_nonempty: "st \<noteq> [] \<Longrightarrow> pop_scopes indent st \<noteq> []"
  by (induction indent st rule: pop_scopes.induct) auto

lemma pop_scopes_seen:
  "pop_scopes indent st = (i, l, seen) # rest \<Longrightarrow> pop_scopes indent ((i, l, seen') # rest) = (i, l, seen') # rest"
  by (induction indent st rule: pop_scopes.induct) (auto split: if_splits simp: neq_Nil_conv)

lemma pop_scopes_pushed:
  "pushed m push \<Longrightarrow> indent \<le> m \<Longrightarrow> X \<noteq> [] \<Longrightarrow> pop_scopes indent (push @ X) = pop_scopes indent X"
  by (auto simp: pushed_def pop_scopes_drop)

lemma scan_key_plain:
  assumes pk: "plain_key k" and pop: "pop_scopes indent stack = (i, l, seen) # rest"
  shows "\<exists>push. pushed (indent + 1) push \<and>
     scan_key ln (k @ '':'' @ r) indent (stack, errs) =
       (push @ (i, l, case map_of seen k of Some f \<Rightarrow> seen | None \<Rightarrow> seen @ [(k, ln)]) # rest,
        case map_of seen k of Some f \<Rightarrow> errs @ [DuplicateKey ln k f] | None \<Rightarrow> errs)"
proof -
  have ek: "extract_key (k @ '':'' @ r) = k" by (rule extract_key_plain[OF pk])
  have ne: "k \<noteq> []" and nb: "\<not> startswith k ''{''"
    using plain_keyD(1,8)[OF pk] by (cases k; simp add: startswith_def)+
  show ?thesis
  proof (cases "endswith (rstrip (k @ '':'' @ r)) '':''
                     \<or> (\<not> substring '': '' (k @ '':'' @ r) \<and> endswith (k @ '':'' @ r) '':'')")
    case True
    then show ?thesis
      unfolding scan_key_def
      by (intro exI[of _ "[(indent + 1, False, [])]"])
         (auto simp add: ek ne nb pop pushed_def Let_def split: option.splits simp del: append.simps)
  next
    case False
    then show ?thesis
      unfolding scan_key_def
      by (intro exI[of _ "[]"])
         (auto simp add: ek ne nb pop pushed_def Let_def split: option.splits simp del: append.simps)
  qed
qed

lemma startswith_hash: "plain_key k \<Longrightarrow> \<not> startswith (k @ r) ''#''"
  by (cases k) (auto simp: startswith_def dest: plain_keyD)

lemma startswith_dash: "plain_key k \<Longrightarrow> \<not> startswith (k @ '':'' @ r) ''- ''"
proof
  assume pk: "plain_key k" and sw: "startswith (k @ '':'' @ r) ''- ''"
  from plain_keyD(1,11)[OF pk] have "k \<noteq> []" "CHR '' '' \<notin> set k"
    by (auto simp: is_space_def)
  with sw show False
    by (cases k; cases "tl k") (auto simp: startswith_def)
qed

lemma scan_line_key:
  assumes pk: "plain_key k" and pop: "pop_scopes (int n) stack = (i, l, seen) # rest"
  shows "\<exists>push. pushed (int n + 1) push \<and>
     scan_line (stack, errs) (ln, key_line n k r) =
       (push @ (i, l, case map_of seen k of Some f \<Rightarrow> seen | None \<Rightarrow> seen @ [(k, ln)]) # rest,
        case map_of seen k of Some f \<Rightarrow> errs @ [DuplicateKey ln k f] | None \<Rightarrow> errs)"
proof -
  have ls: "lstrip (key_line n k r) = k @ '':'' @ r" by (rule lstrip_key_line[OF pk])
  have ind: "int (length (key_line n k r)) - int (length (k @ '':'' @ r)) = int n"
    by (simp add: key_line_def eval_nat_numeral)
  have ne: "k @ '':'' @ r \<noteq> []" by simp
  show ?thesis
    using scan_key_plain[OF pk pop, where ln=ln and r=r and errs=errs]
    unfolding scan_line_def Let_def fst_conv snd_conv ls ind
    using startswith_hash[OF pk, of "'':'' @ r"] startswith_dash[OF pk, of r] ne
    by (simp del: append.simps)
qed

lemma scan_line_item:
  assumes pk: "plain_key k"
  shows "\<exists>push. pushed (int n + 3) push \<and>
     scan_line (stack, errs) (ln, item_line n k r) =
       (push @ (int n, True, [(k, ln)]) # pop_scopes (int n) stack, errs)"
proof -
  have ls: "lstrip (item_line n k r) = ''- '' @ k @ '':'' @ r" by (rule lstrip_item_line)
  have ind: "int (length (item_line n k r)) - int (length (''- '' @ k @ '':'' @ r)) = int n"
    by (simp add: item_line_def)
  have ls2: "lstrip (drop 2 (''- '' @ k @ '':'' @ r)) = k @ '':'' @ r"
    using lstrip_plain[OF pk] by simp
  have sw: "startswith (''- '' @ k @ '':'' @ r) ''- ''" "\<not> startswith (''- '' @ k @ '':'' @ r) ''#''"
    by (simp_all add: startswith_def)
  have pop: "pop_scopes (int n + 2) ((int n, True, []) # pop_scopes (int n) stack)
     = (int n, True, []) # pop_scopes (int n) stack"
    by (rule pop_scopes_keep) simp
  have colon: "CHR '':'' \<in> set (k @ '':'' @ r)" by simp
  show ?thesis
    using scan_key_plain[OF pk pop, where ln=ln and r=r and errs=errs]
    unfolding scan_line_def Let_def fst_conv snd_conv ls ind ls2
    using sw colon
    by (simp del: append_Cons add: add.commute)
qed

lemma scan_lines_Nil: "scan_lines start [] st = st"
  by (simp add: scan_lines_def)

lemma scan_lines_Cons: "scan_lines start (l # ls) st = scan_lines (Suc start) ls (scan_line st (start, l))"
  by (simp add: scan_lines_def)

lemma scan_lines_append:
  "scan_lines start (xs @ ys) st = scan_lines (start + length xs) ys (scan_lines start xs st)"
  by (simp add: scan_lines_def enumerate_append_eq)

lemma scan_aba:
  assumes a: "plain_key a" and b: "plain_key b" and ab: "a \<noteq> b"
    and pop: "pop_scopes (int n) stack = (i, l, seen) # rest"
    and fa: "map_of seen a = None" and fb: "map_of seen b = None"
  shows "snd (scan_lines ln [key_line n a r1, key_line n b r2, key_line n a r3] (stack, errs))
     = errs @ [DuplicateKey (ln + 2) a ln]"
proof -
  obtain p1 where p1: "pushed (int n + 1) p1"
    and s1: "scan_line (stack, errs) (ln, key_line n a r1) = (p1 @ (i, l, seen @ [(a, ln)]) # rest, errs)"
    using scan_line_key[OF a pop, where ln=ln and r=r1 and errs=errs] fa by auto
  have pop1: "pop_scopes (int n) (p1 @ (i, l, seen @ [(a, ln)]) # rest) = (i, l, seen @ [(a, ln)]) # rest"
    using pop_scopes_pushed[OF p1, of "int n" "(i, l, seen @ [(a, ln)]) # rest"] pop_scopes_seen[OF pop]
    by simp
  have fb1: "map_of (seen @ [(a, ln)]) b = None" using fb ab by (simp add: map_add_def)
  obtain p2 where p2: "pushed (int n + 1) p2"
    and s2: "scan_line (p1 @ (i, l, seen @ [(a, ln)]) # rest, errs) (Suc ln, key_line n b r2)
       = (p2 @ (i, l, seen @ [(a, ln), (b, Suc ln)]) # rest, errs)"
    using scan_line_key[OF b pop1, where ln="Suc ln" and r=r2 and errs=errs] by (auto simp: fb1 simp del: map_of_append)
  have pop2: "pop_scopes (int n) (p2 @ (i, l, seen @ [(a, ln), (b, Suc ln)]) # rest)
      = (i, l, seen @ [(a, ln), (b, Suc ln)]) # rest"
    using pop_scopes_pushed[OF p2, of "int n" "(i, l, seen @ [(a, ln), (b, Suc ln)]) # rest"] pop_scopes_seen[OF pop]
    by simp
  have fa2: "map_of (seen @ [(a, ln), (b, Suc ln)]) a = Some ln"
    using fa ab by (simp add: map_add_def)
  obtain p3 where "scan_line (p2 @ (i, l, seen @ [(a, ln), (b, Suc ln)]) # rest, errs) (Suc (Suc ln), key_line n a r3)
       = (p3 @ (i, l, seen @ [(a, ln), (b, Suc ln)]) # rest, errs @ [DuplicateKey (Suc (Suc ln)) a ln])"
    using scan_line_key[OF a pop2, where ln="Suc (Suc ln)" and r=r3 and errs=errs] by (auto simp: fa2 simp del: map_of_append)
  with s1 s2 show ?thesis
    by (simp add: scan_lines_Cons scan_lines_Nil)
qed

lemma scan_item_rest:
  assumes "list_all (\<lambda>(k, r). plain_key k) others" "distinct (map fst others)"
    "fst ` set others \<inter> fst ` set seen = {}" "pushed (int n + 3) push"
  shows "\<exists>push' seen'. pushed (int n + 3) push' \<and>
     scan_lines ln (map (\<lambda>(k, r). key_line (n + 2) k r) others) (push @ (int n, True, seen) # X, errs)
       = (push' @ (int n, True, seen') # X, errs)"
  using assms
proof (induction others arbitrary: ln push seen)
  case Nil
  then show ?case by (auto simp: scan_lines_Nil)
next
  case (Cons kr others)
  obtain k r where kr: "kr = (k, r)" by (cases kr)
  from Cons.prems kr have pk: "plain_key k" and fresh: "map_of seen k = None"
    by (auto simp: map_of_eq_None_iff)
  have pop: "pop_scopes (int (n + 2)) (push @ (int n, True, seen) # X) = (int n, True, seen) # X"
    using pop_scopes_pushed[OF Cons.prems(4), of "int (n + 2)" "(int n, True, seen) # X"]
    by (simp add: pop_scopes_keep)
  obtain p1 where p1: "pushed (int n + 3) p1"
    and s1: "scan_line (push @ (int n, True, seen) # X, errs) (ln, key_line (n + 2) k r)
        = (p1 @ (int n, True, seen @ [(k, ln)]) # X, errs)"
    using scan_line_key[OF pk pop, where ln=ln and r=r and errs=errs] fresh
    by (auto simp: add.commute)
  have "fst ` set others \<inter> fst ` set (seen @ [(k, ln)]) = {}"
    using Cons.prems(2,3) kr by auto
  moreover from Cons.prems(1,2) have "list_all (\<lambda>(k, r). plain_key k) others" "distinct (map fst others)"
    by simp_all
  ultimately obtain push' seen' where "pushed (int n + 3) push'"
    "scan_lines (Suc ln) (map (\<lambda>(k, r). key_line (n + 2) k r) others)
       (p1 @ (int n, True, seen @ [(k, ln)]) # X, errs) = (push' @ (int n, True, seen') # X, errs)"
    using Cons.IH[OF _ _ _ p1, where ln="Suc ln" and seen="seen @ [(k, ln)]"] by blast
  then show ?case
    unfolding kr list.map prod.case scan_lines_Cons s1 by blast
qed

lemma scan_item:
  assumes "item_ok it"
  shows "\<exists>stack'. scan_lines ln (item_lines n it) (stack, errs) = (stack', errs)"
proof -
  from assms obtain k r others where it: "it = (k, r) # others"
    by (cases it) (auto simp: item_ok_def)
  from assms have pk: "plain_key k"
    and others: "list_all (\<lambda>(k, r). plain_key k) others" "distinct (map fst others)" "k \<notin> fst ` set others"
    unfolding it item_ok_def list_all_iff by auto
  obtain p1 where p1: "pushed (int n + 3) p1"
    and s1: "scan_line (stack, errs) (ln, item_line n k r) = (p1 @ (int n, True, [(k, ln)]) # pop_scopes (int n) stack, errs)"
    using scan_line_item[OF pk, where ln=ln and r=r and errs=errs and n=n and stack=stack] by auto
  have "fst ` set others \<inter> fst ` set [(k, ln)] = {}" using others(3) by auto
  from scan_item_rest[OF others(1,2) this p1, where ln="Suc ln" and X="pop_scopes (int n) stack" and errs=errs]
  show ?thesis by (auto simp: it scan_lines_Cons s1)
qed

lemma scan_items:
  assumes "list_all item_ok items"
  shows "snd (scan_lines ln (concat (map (item_lines n) items)) (stack, errs)) = errs"
  using assms
proof (induction items arbitrary: ln stack)
  case Nil
  then show ?case by (simp add: scan_lines_Nil)
next
  case (Cons it items)
  then obtain stack' where "scan_lines ln (item_lines n it) (stack, errs) = (stack', errs)"
    using scan_item[of it ln n stack errs] by auto
  with Cons show ?case by (simp add: scan_lines_append)
qed

lemma one_line_plain: "plain_key k \<Longrightarrow> one_line k"
  unfolding one_line_def list_all_iff using plain_keyD(11) linebreak_space by blast

lemma one_line_append: "one_line (xs @ ys) = (one_line xs \<and> one_line ys)"
  by (simp add: one_line_def)

lemma one_line_spaces: "one_line (replicate n CHR '' '')"
  by (simp add: one_line_def list_all_iff is_linebreak_def)

lemma one_line_key_line: "plain_key k \<Longrightarrow> one_line r \<Longrightarrow> one_line (key_line n k r)"
  unfolding key_line_def one_line_append
  by (simp add: one_line_plain one_line_spaces) (simp add: one_line_def is_linebreak_def)

lemma one_line_item_line: "plain_key k \<Longrightarrow> one_line r \<Longrightarrow> one_line (item_line n k r)"
  unfolding item_line_def one_line_append
  by (simp add: one_line_plain one_line_spaces) (simp add: one_line_def is_linebreak_def)

lemma item_lines_ok:
  assumes "item_ok it"
  shows "list_all one_line (item_lines n it)" "item_lines n it \<noteq> []" "last (item_lines n it) \<noteq> []"
proof -
  from assms obtain k r others where it: "it = (k, r) # others" and pk: "plain_key k" "one_line r"
    and others: "list_all (\<lambda>(k, r). plain_key k \<and> one_line r) others"
    by (cases it) (auto simp: item_ok_def)
  show "list_all one_line (item_lines n it)"
    using pk others by (auto simp: it list_all_iff one_line_item_line one_line_key_line)
  show "item_lines n it \<noteq> []" by (simp add: it)
  show "last (item_lines n it) \<noteq> []"
    by (cases others rule: rev_cases) (auto simp: it item_line_def key_line_def split: prod.splits)
qed

lemma scan_text_lines: "scan_text text = scan_lines 1 (splitlines text) scan_init"
  by (simp add: scan_text_def)

lemma concat_item_lines_ok:
  assumes "list_all item_ok items" "items \<noteq> []"
  shows "list_all one_line (concat (map (item_lines n) items))"
    "concat (map (item_lines n) items) \<noteq> []" "last (concat (map (item_lines n) items)) \<noteq> []"
proof -
  show "list_all one_line (concat (map (item_lines n) items))"
    using assms(1) item_lines_ok(1) by (induction items) auto
  from assms obtain its it where items: "items = its @ [it]" "item_ok it"
    by (cases items rule: rev_cases) auto
  then show "concat (map (item_lines n) items) \<noteq> []" "last (concat (map (item_lines n) items)) \<noteq> []"
    using item_lines_ok(2,3)[of it n] by auto
qed

lemma rstrip_keeps_head: "\<not> P c \<Longrightarrow> \<exists>t'. rev (dropWhile P (rev (c # t))) = c # t'"
proof (cases "\<forall>x\<in>set t. P x")
  case True
  assume "\<not> P c"
  with True show ?thesis by (simp add: dropWhile_append)
next
  case False
  then have "rev (dropWhile P (rev (c # t))) = c # rev (dropWhile P (rev t))"
    by (simp add: dropWhile_append)
  then show ?thesis by blast
qed

lemma scan_aa:
  assumes a: "plain_key a"
    and pop: "pop_scopes (int n) stack = (i, l, seen) # rest"
    and fa: "map_of seen a = None"
  shows "snd (scan_lines ln [key_line n a r1, key_line n a r2] (stack, errs))
     = errs @ [DuplicateKey (ln + 1) a ln]"
proof -
  obtain p1 where p1: "pushed (int n + 1) p1"
    and s1: "scan_line (stack, errs) (ln, key_line n a r1) = (p1 @ (i, l, seen @ [(a, ln)]) # rest, errs)"
    using scan_line_key[OF a pop, where ln=ln and r=r1 and errs=errs] fa by auto
  have pop1: "pop_scopes (int n) (p1 @ (i, l, seen @ [(a, ln)]) # rest) = (i, l, seen @ [(a, ln)]) # rest"
    using pop_scopes_pushed[OF p1, of "int n" "(i, l, seen @ [(a, ln)]) # rest"] pop_scopes_seen[OF pop]
    by simp
  have fa1: "map_of (seen @ [(a, ln)]) a = Some ln"
    using fa by (simp add: map_add_def)
  obtain p2 where "scan_line (p1 @ (i, l, seen @ [(a, ln)]) # rest, errs) (Suc ln, key_line n a r2)
       = (p2 @ (i, l, seen @ [(a, ln)]) # rest, errs @ [DuplicateKey (Suc ln) a ln])"
    using scan_line_key[OF a pop1, where ln="Suc ln" and r=r2 and errs=errs] by (auto simp: fa1 simp del: map_of_append)
  with s1 show ?thesis
    by (simp add: scan_lines_Cons scan_lines_Nil)
qed

lemma repeated_key_reported:
  assumes "plain_key k" "one_line r1" "one_line r2"
  shows "check_duplicate_keys_raw (join_lines [key_line n k r1, key_line n k r2]) = [DuplicateKey 2 k 1]"
proof -
  have "list_all one_line [key_line n k r1, key_line n k r2]"
    using assms by (simp add: one_line_key_line)
  moreover have "last [key_line n k r1, key_line n k r2] \<noteq> []" by (simp add: key_line_def)
  ultimately have sp: "splitlines (join_lines [key_line n k r1, key_line n k r2]) = [key_line n k r1, key_line n k r2]"
    by (intro splitlines_join) simp_all
  have pop: "pop_scopes (int n) [(-1, False, [])] = (-1, False, []) # []" by simp
  show ?thesis
    unfolding check_duplicate_keys_raw_def scan_text_lines sp scan_init_def
    using scan_aa[OF assms(1) pop, where ln=1 and errs="[]" and ?r1.0=r1 and ?r2.0=r2]
    by simp
qed

lemma flow_key_line_ignored:
  assumes "lstrip line = CHR ''{'' # rest"
  shows "scan_line st (ln, line) = st"
proof -
  let ?s = "CHR ''{'' # rest"
  have nq: "match_quoted ?s = None" by (simp add: match_quoted_def)
  have nsp: "\<not> is_space CHR ''{''" by (simp add: is_space_def)
  obtain t1 where t1: "strip (takeWhile (\<lambda>c. c \<noteq> CHR '':'') ?s) = CHR ''{'' # t1"
    using nsp rstrip_keeps_head[where P=is_space and c="CHR ''{''" and t="takeWhile (\<lambda>c. c \<noteq> CHR '':'') rest"]
    by (auto simp: strip_def lstrip_def rstrip_def nsp)
  obtain t2 where t2: "strip_chars {squote, dquote} (CHR ''{'' # t1) = CHR ''{'' # t2"
    using rstrip_keeps_head[where P="\<lambda>c. c \<in> {squote, dquote}" and c="CHR ''{''" and t=t1]
    by (auto simp: strip_chars_def)
  have key: "extract_key ?s = CHR ''{'' # t2"
    by (simp only: extract_key_def nq option.case t1 t2)
  have "scan_key ln ?s indent st = st" for indent
    by (simp add: scan_key_def key startswith_def Let_def)
  then show ?thesis
    by (simp add: scan_line_def assms startswith_def Let_def)
qed

text \<open>
  C2 (as amended). After any lines \<open>pre\<close> that leave the scope owning indentation \<open>n\<close>
  without the keys \<open>a\<close> and \<open>b\<close>, the three sibling lines \<open>a:\<close>, \<open>b:\<close>, \<open>a:\<close> at
  indentation \<open>n\<close> add exactly one duplicate-key error: it names the line of the second
  \<open>a\<close> and the line of the first. After the same lines, a run of list items at one
  indentation, each starting with dash, space and a key and holding each of its keys
  once, adds no error, whatever keys the items share.
\<close>

theorem dup_scan_siblings_and_list_items:
  assumes "plain_key a" "plain_key b" "a \<noteq> b" "one_line r1" "one_line r2" "one_line r3"
    and "list_all one_line pre" "scan_lines 1 pre scan_init = (stack, errs)"
    and "pop_scopes (int n) stack = (i, l, seen) # rest" "map_of seen a = None" "map_of seen b = None"
    and "list_all item_ok items" "items \<noteq> []"
  shows "check_duplicate_keys_raw (join_lines (pre @ [key_line n a r1, key_line n b r2, key_line n a r3]))
           = errs @ [DuplicateKey (length pre + 3) a (length pre + 1)]
       \<and> check_duplicate_keys_raw (join_lines (pre @ concat (map (item_lines m) items))) = errs"
proof
  let ?blk = "[key_line n a r1, key_line n b r2, key_line n a r3]"
  have "list_all one_line (pre @ ?blk)"
    using assms by (simp add: one_line_key_line)
  moreover have "last (pre @ ?blk) \<noteq> []" by (simp add: key_line_def)
  ultimately have sp: "splitlines (join_lines (pre @ ?blk)) = pre @ ?blk"
    by (intro splitlines_join) simp_all
  show "check_duplicate_keys_raw (join_lines (pre @ ?blk)) = errs @ [DuplicateKey (length pre + 3) a (length pre + 1)]"
    unfolding check_duplicate_keys_raw_def scan_text_lines sp scan_lines_append assms(8)
    using scan_aba[OF assms(1,2,3,9,10,11), where ln="1 + length pre" and errs=errs and ?r1.0=r1 and ?r2.0=r2 and ?r3.0=r3]
    by (simp add: add.commute)
next
  let ?ls = "concat (map (item_lines m) items)"
  have "list_all one_line (pre @ ?ls)" "pre @ ?ls \<noteq> []" "last (pre @ ?ls) \<noteq> []"
    using assms(7) concat_item_lines_ok[OF assms(12,13), of m] by simp_all
  then have sp: "splitlines (join_lines (pre @ ?ls)) = pre @ ?ls"
    by (rule splitlines_join)
  show "check_duplicate_keys_raw (join_lines (pre @ ?ls)) = errs"
    unfolding check_duplicate_keys_raw_def scan_text_lines sp scan_lines_append assms(8)
    by (rule scan_items[OF assms(12)])
qed

theorem dup_scan_siblings_and_list_items_witness:
  "check_duplicate_keys_raw (join_lines [''suspects:'', ''  a: 1'', ''  b: 2'', ''  a: 3''])
     = [DuplicateKey 4 ''a'' 2]
   \<and> check_duplicate_keys_raw
       (join_lines [''suspects:'', ''  - id: x'', ''    name: X'', ''  - id: y'', ''    name: Y'']) = []"
proof -
  have pre: "scan_lines 1 [''suspects:''] scan_init
      = ([(1, False, []), (-1, False, [(''suspects'', 1)])], [])"
    by code_simp
  have pop: "pop_scopes (int 2) [(1, False, []), (-1, False, [(''suspects'', 1)])]
      = (1, False, []) # [(-1, False, [(''suspects'', 1)])]"
    by simp
  have keys: "plain_key ''a''" "plain_key ''b''" "plain_key ''id''" "plain_key ''name''"
    by (simp_all add: plain_key_def is_space_def)
  have vals: "one_line '' 1''" "one_line '' 2''" "one_line '' 3''" "one_line '' x''"
    "one_line '' X''" "one_line '' y''" "one_line '' Y''" "list_all one_line [''suspects:'']"
    by (simp_all add: one_line_def is_linebreak_def)
  have items: "list_all item_ok [[(''id'', '' x''), (''name'', '' X'')], [(''id'', '' y''), (''name'', '' Y'')]]"
    using keys vals by (simp add: item_ok_def)
  show ?thesis
    using dup_scan_siblings_and_list_items[OF keys(1,2) _ vals(1,2,3,8) pre pop _ _ items, where m=2]
    by (simp add: key_line_def item_line_def eval_nat_numeral)
qed

text \<open>
  C2 fails as stated: a list item whose dash stands alone on its line is not taken for
  a list item (line 87 looks for a dash followed by a space), so the keys of such items
  land in the enclosing scope, and the second item's \<open>id\<close> is reported.
\<close>

theorem bare_dash_items_counterexample:
  "check_duplicate_keys_raw
     (join_lines [''suspects:'', ''  -'', ''    id: a'', ''  -'', ''    id: b''])
   = [DuplicateKey 5 ''id'' 3]"
  by code_simp

text \<open>
  C4 (as amended). The scanner skips a line whose key text starts with \<open>{\<close>, that is a
  line whose first character after the indentation is \<open>{\<close>: the scope stack and the
  errors stay as they were. The value of a key plays no part: a key whose value is an
  inline flow mapping is tracked like any other key, and a second sibling line with
  that key is reported.
\<close>

theorem flow_mapping_line_ignored_value_tracked:
  assumes "lstrip line = CHR ''{'' # rest" "plain_key k" "one_line v1" "one_line v2"
  shows "scan_line st (ln, line) = st
    \<and> check_duplicate_keys_raw (join_lines [key_line n k ('' {'' @ v1), key_line n k ('' {'' @ v2)])
        = [DuplicateKey 2 k 1]"
proof
  show "scan_line st (ln, line) = st"
    by (rule flow_key_line_ignored[OF assms(1)])
  have "one_line ('' {'' @ v1)" "one_line ('' {'' @ v2)"
    using assms(3,4) by (simp_all add: one_line_def is_linebreak_def)
  then show "check_duplicate_keys_raw (join_lines [key_line n k ('' {'' @ v1), key_line n k ('' {'' @ v2)])
        = [DuplicateKey 2 k 1]"
    by (rule repeated_key_reported[OF assms(2)])
qed

theorem flow_mapping_line_ignored_value_tracked_witness:
  "scan_line ([(-1, False, [(''a'', 1)])], []) (2, ''  {a: 1}'') = ([(-1, False, [(''a'', 1)])], [])
   \<and> check_duplicate_keys_raw (join_lines [''  key: {a: 1}'', ''  key: {b: 2}''])
        = [DuplicateKey 2 ''key'' 1]"
proof -
  have l: "lstrip ''  {a: 1}'' = CHR ''{'' # ''a: 1}''"
    by (simp add: lstrip_def is_space_def)
  have k: "plain_key ''key''" by (simp add: plain_key_def is_space_def)
  have v: "one_line ''a: 1}''" "one_line ''b: 2}''" by (simp_all add: one_line_def is_linebreak_def)
  show ?thesis
    using flow_mapping_line_ignored_value_tracked[OF l k v, where n=2 and ln=2
        and st="([(-1, False, [(''a'', 1)])], [])"]
    by (simp add: key_line_def eval_nat_numeral)
qed

text \<open>
  C4 fails as stated: the guard of line 110 tests the key, not the value. Two sibling
  lines \<open>key: {a: 1}\<close> record the key and report the second one.
\<close>

theorem flow_value_tracked_counterexample:
  "scan_text (join_lines [''key: {a: 1}'', ''key: {a: 1}''])
   = ([(-1, False, [(''key'', 1)])], [DuplicateKey 2 ''key'' 1])"
  by code_simp

section \<open>Basic facts about results and loops\<close>

lemma bind_r_Inr [simp]: "bind_r (Inr x) f = f x"
  by (simp add: bind_r_def)

lemma bind_r_Inl [simp]: "bind_r (Inl e) f = Inl e"
  by (simp add: bind_r_def)

lemma bind_r_eq_Inr: "bind_r m f = Inr y \<longleftrightarrow> (\<exists>x. m = Inr x \<and> f x = Inr y)"
  by (cases m) auto

lemma warnings_err [simp]: "warnings (err m r) = warnings r"
  by (simp add: err_def)

lemma errors_warn [simp]: "errors (warn m r) = errors r"
  by (simp add: warn_def)

lemma warnings_warn [simp]: "warnings (warn m r) = warnings r @ [m]"
  by (simp add: warn_def)

lemma errors_err [simp]: "errors (err m r) = errors r @ [m]"
  by (simp add: err_def)

lemma warnings_warn_all [simp]: "warnings (warn_all ms r) = warnings r @ ms"
  unfolding warn_all_def by (induction ms arbitrary: r) auto

lemma errors_warn_all [simp]: "errors (warn_all ms r) = errors r"
  unfolding warn_all_def by (induction ms arbitrary: r) auto

lemma warnings_err_if [simp]: "warnings (err_if c m r) = warnings r"
  by (simp add: err_if_def)

lemma errors_err_if [simp]: "errors (err_if c m r) = (if c then errors r @ [m] else errors r)"
  by (simp add: err_if_def)

lemma errors_warn_if [simp]: "errors (warn_if c m r) = errors r"
  by (simp add: warn_if_def)

lemma warnings_warn_if [simp]: "warnings (warn_if c m r) = (if c then warnings r @ [m] else warnings r)"
  by (simp add: warn_if_def)

section \<open>Properties of the map checks\<close>

text \<open>
  C9. When the map of a document declares no room, the map checks add no warning at
  all, hence no unreachable-room warning: whenever they return, and they return
  whenever the murder location is hashable. When the test \<open>'map' in data\<close> fails, the
  hard error of line 138 is recorded.
\<close>

theorem zero_rooms_no_warnings_no_map_error:
  "(map_of kvs ''map'' = Some (YDict []) \<longrightarrow>
      (\<forall>res r'. check_map order (YDict kvs) r = Inr (res, r') \<longrightarrow> warnings r' = warnings r)
    \<and> (hashable (case map_of kvs ''murderLocation'' of Some v \<Rightarrow> v | None \<Rightarrow> YNull) \<longrightarrow>
        (\<exists>r'. check_map order (YDict kvs) r = Inr (([], []), r') \<and> warnings r' = warnings r)))
   \<and> (py_in (YStr ''map'') data = Inr False \<longrightarrow>
        check_map order data r = Inr (([], []), err NoMapKey r))"
proof (intro conjI impI allI)
  show "check_map order data r = Inr (([], []), err NoMapKey r)" if "py_in (YStr ''map'') data = Inr False"
    using that by (simp add: check_map_def)
next
  fix res r'
  assume m: "map_of kvs ''map'' = Some (YDict [])"
    and c: "check_map order (YDict kvs) r = Inr (res, r')"
  have k: "''map'' \<in> fst ` set kvs" using m by (force dest!: map_of_SomeD)
  from c show "warnings r' = warnings r"
    by (auto simp: check_map_def py_in_def in_strs_def py_subscript_def m k py_items_def
        one_way_warnings_def unreachable_warnings_def bind_r_eq_Inr Let_def split: if_splits)
next
  assume m: "map_of kvs ''map'' = Some (YDict [])"
    and h: "hashable (case map_of kvs ''murderLocation'' of Some v \<Rightarrow> v | None \<Rightarrow> YNull)"
  have k: "''map'' \<in> fst ` set kvs" using m by (force dest!: map_of_SomeD)
  obtain ml where ml: "py_get (YDict kvs) ''murderLocation'' YNull = Inr ml" "hashable ml"
    using h by (simp add: py_get_def)
  then obtain b where "in_strs ml [] = Inr b"
    by (cases ml) (auto simp: in_strs_def)
  then show "\<exists>r'. check_map order (YDict kvs) r = Inr (([], []), r') \<and> warnings r' = warnings r"
    using ml by (auto simp: check_map_def py_in_def in_strs_def py_subscript_def m k py_items_def
        one_way_warnings_def unreachable_warnings_def Let_def)
qed

















theorem zero_rooms_no_warnings_no_map_error_witness:
  "(\<exists>r'. check_map (\<lambda>xs. xs) (YDict [(''id'', YStr ''case''), (''map'', YDict [])]) new_result
        = Inr (([], []), r') \<and> warnings r' = [])
   \<and> check_map (\<lambda>xs. xs) (YDict [(''id'', YStr ''case'')]) new_result
        = Inr (([], []), \<lparr>errors = [NoMapKey], warnings = []\<rparr>)"
  using zero_rooms_no_warnings_no_map_error[of "[(''id'', YStr ''case''), (''map'', YDict [])]"
      "\<lambda>xs. xs" new_result "YDict [(''id'', YStr ''case'')]"]
  by (simp add: py_in_def in_strs_def new_result_def err_def)


section \<open>Properties of the suspects and solution checks\<close>



lemma py_eq_hashable: "hashable b \<Longrightarrow> py_eq a b \<Longrightarrow> hashable a"
  by (cases a; cases b) auto

lemma in_list_append [simp]: "in_list x (xs @ ys) = (in_list x xs \<or> in_list x ys)"
  by (simp add: in_list_def list_ex_iff) blast

lemma in_list_Cons [simp]: "in_list x (y # ys) = (py_eq x y \<or> in_list x ys)"
  by (simp add: in_list_def)

lemma in_list_Nil [simp]: "in_list x [] = False"
  by (simp add: in_list_def)




lemma filter_err_if [simp]:
  "filter P (errors (err_if c m r)) = filter P (errors r) @ (if c \<and> P m then [m] else [])"
  by (simp add: err_if_def)



lemma filter_flag_mismatches [simp]:
  "filter is_flag_error (flag_mismatches roles s) = flag_mismatches roles s"
  "filter is_role_error (flag_mismatches roles s) = []"
  by (auto simp: flag_mismatches_def mismatch_def split: sum.splits)










section \<open>Properties of the secret trigger checks\<close>

lemma concat_map_Nil [simp]: "concat (map (\<lambda>x. []) xs) = []"
  by (induction xs) auto














section \<open>Properties of the narrative checks\<close>

lemma for_each_appends:
  assumes "for_each xs body s = Inr s'"
    and "\<forall>x s s1. x \<in> set xs \<and> body x s = Inr s1
          \<longrightarrow> (\<exists>new. f s1 = f s @ new \<and> filter P new = F x)"
  shows "\<exists>new. f s' = f s @ new \<and> filter P new = concat (map F xs)"
  using assms
proof (induction xs arbitrary: s)
  case Nil
  then show ?case by simp
next
  case (Cons x xs)
  from Cons.prems(1) obtain s1 where st: "body x s = Inr s1" and l: "for_each xs body s1 = Inr s'"
    by (auto simp: bind_r_eq_Inr)
  from Cons.prems(2) st obtain n1 where n1: "f s1 = f s @ n1" "filter P n1 = F x"
    by (meson list.set_intros(1))
  have "\<forall>x s s1. x \<in> set xs \<and> body x s = Inr s1
          \<longrightarrow> (\<exists>new. f s1 = f s @ new \<and> filter P new = F x)"
    using Cons.prems(2) by (meson list.set_intros(2))
  from Cons.IH[OF l this] obtain n2 where n2: "f s' = f s1 @ n2" "filter P n2 = concat (map F xs)"
    by blast
  show ?case
    by (rule exI[of _ "n1 @ n2"]) (simp add: n1 n2)
qed

lemma substring_Nil [simp]: "substring [] s"
  by (induction s) (auto simp: startswith_def)

lemma lower_Nil [simp]: "lower [] = []"
  by (simp add: lower_def)

lemma win_conditions_nameless:
  assumes "check_win_conditions killer_id suspects data r = Inr r'"
    and "case pd_get suspects killer_id of None \<Rightarrow> True
         | Some s \<Rightarrow> py_get s ''name'' (YStr []) = Inr (YStr [])"
  shows "r' = r"
proof -
  from assms(1) obtain wc where wc: "py_get data ''win_conditions'' (YDict []) = Inr wc"
    and body: "(if truthy wc \<and> truthy killer_id then
       (let wc_text = lower (json_dumps wc) in
        bind_r (pd_lookup suspects killer_id (YDict [])) (\<lambda>killer.
        bind_r (py_get killer ''name'' (YStr [])) (\<lambda>name.
        bind_r (py_lower name) (\<lambda>killer_name.
        bind_r (py_lower killer_id) (\<lambda>killer_low.
        Inr (warn_if (\<not> substring killer_low wc_text \<and> \<not> substring killer_name wc_text)
               (WinConditionsSilent killer_id) r))))))
     else Inr r) = Inr r'"
    unfolding check_win_conditions_def bind_r_eq_Inr by blast
  show ?thesis
  proof (cases "truthy wc \<and> truthy killer_id")
    case False
    with body show ?thesis by simp
  next
    case True
    with body obtain killer name killer_name killer_low where
      k: "pd_lookup suspects killer_id (YDict []) = Inr killer"
      and n: "py_get killer ''name'' (YStr []) = Inr name"
      and kn: "py_lower name = Inr killer_name"
      and r': "r' = warn_if (\<not> substring killer_low (lower (json_dumps wc))
                   \<and> \<not> substring killer_name (lower (json_dumps wc)))
               (WinConditionsSilent killer_id) r"
      by (auto simp: Let_def bind_r_eq_Inr)
    from k assms(2) have "py_get killer ''name'' (YStr []) = Inr (YStr [])"
      by (auto simp: pd_lookup_def py_get_def split: if_splits option.splits)
    with n kn have "killer_name = []" by (auto simp: py_lower_def)
    then show ?thesis by (simp add: r' warn_if_def)
  qed
qed

lemma warn_if_appends:
  "is_win_conditions_warning m = False \<Longrightarrow>
   \<exists>new. warnings (warn_if c m r) = warnings r @ new \<and> filter is_win_conditions_warning new = []"
  by (cases c) (simp_all add: warn_if_def)

lemma murder_scene_warnings:
  assumes "check_murder_scene killer_id murder_loc suspects evidence r = Inr r'"
  shows "\<exists>new. warnings r' = warnings r @ new \<and> filter is_win_conditions_warning new = []"
proof -
  from assms have "r' = r \<or> (\<exists>c. r' = warn_if c (KillerNoMurderSceneSecret killer_id) r)"
    by (auto simp: check_murder_scene_def bind_r_eq_Inr split: if_splits)
  then show ?thesis
    using warn_if_appends[of "KillerNoMurderSceneSecret killer_id"] by auto
qed

lemma confession_warnings:
  assumes "check_confession killer_id suspects r = Inr r'"
  shows "\<exists>new. warnings r' = warnings r @ new \<and> filter is_win_conditions_warning new = []"
proof -
  from assms have "r' = r \<or> (\<exists>c. r' = warn_if c (KillerNoConfession killer_id) r)"
    by (auto simp: check_confession_def bind_r_eq_Inr split: if_splits)
  then show ?thesis
    using warn_if_appends[of "KillerNoConfession killer_id"] by auto
qed

lemma key_evidence_warnings:
  assumes "for_each evs (\<lambda>ev_id r. bind_r (in_set ev_id required)
            (\<lambda>used. Inr (warn_if (\<not> used) (KeyEvidenceNeverRequired ev_id) r))) r = Inr r'"
  shows "\<exists>new. warnings r' = warnings r @ new \<and> filter is_win_conditions_warning new = []"
proof -
  have "\<forall>x s s1. x \<in> set evs \<and> bind_r (in_set x required)
            (\<lambda>used. Inr (warn_if (\<not> used) (KeyEvidenceNeverRequired x) s)) = Inr s1
      \<longrightarrow> (\<exists>new. warnings s1 = warnings s @ new \<and> filter is_win_conditions_warning new = [])"
    using warn_if_appends[of "KeyEvidenceNeverRequired _"] by (auto simp: bind_r_eq_Inr)
  from for_each_appends[OF assms, where f=warnings and F="\<lambda>x. []", OF this]
  show ?thesis by simp
qed

lemma statement_warnings:
  assumes "for_each elems
        (\<lambda>suspect r. bind_r (py_subscript suspect ''id'') (\<lambda>sid.
                      bind_r (py_in sid statements)
                        (\<lambda>stated. Inr (warn_if (\<not> stated) (NoPoliceStatement sid) r)))) r = Inr r'"
  shows "\<exists>new. warnings r' = warnings r @ new \<and> filter is_win_conditions_warning new = []"
proof -
  have "\<forall>x s s1. x \<in> set elems \<and> bind_r (py_subscript x ''id'') (\<lambda>sid.
                      bind_r (py_in sid statements)
                        (\<lambda>stated. Inr (warn_if (\<not> stated) (NoPoliceStatement sid) s))) = Inr s1
      \<longrightarrow> (\<exists>new. warnings s1 = warnings s @ new \<and> filter is_win_conditions_warning new = [])"
    using warn_if_appends[of "NoPoliceStatement _"] by (auto simp: bind_r_eq_Inr)
  from for_each_appends[OF assms, where f=warnings and F="\<lambda>x. []", OF this]
  show ?thesis by simp
qed

lemma check_nameless_killer:
  "check_narrative_consistency nameless_killer new_result
   = Inr \<lparr>errors = [],
          warnings = [KillerNoConfession (YStr ''s1''), NoPoliceStatement (YStr ''s1'')]\<rparr>"
  by code_simp

text \<open>
  C10. When the killer id of the solution is not the id of a declared suspect, or the
  suspect declared under it has no name or an empty name, the narrative checks never
  record the win-conditions warning of line 471, whatever the win conditions say: the
  killer name is then the empty string, which occurs in every text.
\<close>

theorem nameless_killer_never_warned:
  assumes "check_narrative_consistency data r = Inr r'"
    and "py_get data ''solution'' YNull = Inr sol"
    and "py_get (if is_dict sol then sol else YDict []) ''killer'' YNull = Inr killer_id"
    and "py_get data ''suspects'' (YList []) = Inr suspect_list"
    and "py_iter suspect_list = Inr elems" "suspects_by_id elems = Inr suspects"
    and "case pd_get suspects killer_id of None \<Rightarrow> True
         | Some s \<Rightarrow> py_get s ''name'' (YStr []) = Inr (YStr [])"
  shows "filter is_win_conditions_warning (drop (length (warnings r)) (warnings r')) = []"
proof -
  from assms(1) obtain sol' killer_id' suspect_list' elems' suspects' evidence required evs
      r1 murder_loc r2 r3 statements r4 where
    a: "py_get data ''solution'' YNull = Inr sol'"
      "py_get (if is_dict sol' then sol' else YDict []) ''killer'' YNull = Inr killer_id'"
      "py_get data ''suspects'' (YList []) = Inr suspect_list'"
      "py_iter suspect_list' = Inr elems'" "suspects_by_id elems' = Inr suspects'"
    and l1: "for_each evs (\<lambda>ev_id r. bind_r (in_set ev_id required)
            (\<lambda>used. Inr (warn_if (\<not> used) (KeyEvidenceNeverRequired ev_id) r))) r = Inr r1"
    and ms: "check_murder_scene killer_id' murder_loc suspects' evidence r1 = Inr r2"
    and cf: "check_confession killer_id' suspects' r2 = Inr r3"
    and l2: "for_each elems'
        (\<lambda>suspect r. bind_r (py_subscript suspect ''id'') (\<lambda>sid.
                      bind_r (py_in sid statements)
                        (\<lambda>stated. Inr (warn_if (\<not> stated) (NoPoliceStatement sid) r)))) r3 = Inr r4"
    and wc: "check_win_conditions killer_id' suspects' data r4 = Inr r'"
    unfolding check_narrative_consistency_def bind_r_eq_Inr Let_def by blast
  from a(1) assms(2) have e1: "sol' = sol" by simp
  from a(2)[unfolded e1] assms(3) have e2: "killer_id' = killer_id" by simp
  from a(3) assms(4) have e3: "suspect_list' = suspect_list" by simp
  from a(4)[unfolded e3] assms(5) have e4: "elems' = elems" by simp
  from a(5)[unfolded e4] assms(6) have e5: "suspects' = suspects" by simp
  note eq = e2 e5
  from win_conditions_nameless[OF wc[unfolded eq] assms(7)] have r': "r' = r4" .
  from key_evidence_warnings[OF l1] obtain n1 where
    n1: "warnings r1 = warnings r @ n1" "filter is_win_conditions_warning n1 = []" by blast
  from murder_scene_warnings[OF ms] obtain n2 where
    n2: "warnings r2 = warnings r1 @ n2" "filter is_win_conditions_warning n2 = []" by blast
  from confession_warnings[OF cf] obtain n3 where
    n3: "warnings r3 = warnings r2 @ n3" "filter is_win_conditions_warning n3 = []" by blast
  from statement_warnings[OF l2] obtain n4 where
    n4: "warnings r4 = warnings r3 @ n4" "filter is_win_conditions_warning n4 = []" by blast
  show ?thesis
    by (simp add: r' n1 n2 n3 n4)
qed

theorem nameless_killer_never_warned_witness:
  "filter is_win_conditions_warning
     [KillerNoConfession (YStr ''s1''), NoPoliceStatement (YStr ''s1'')] = []
   \<and> \<not> substring ''s1'' (lower (json_dumps (YDict [(''goal'', YStr ''Identify the culprit'')])))"
proof -
  let ?elems = "[YDict [(''id'', YStr ''s1'')]]"
  have s: "py_get nameless_killer ''solution'' YNull = Inr (YDict [(''killer'', YStr ''s1'')])"
    by (simp add: nameless_killer_def py_get_def)
  have k: "py_get (if is_dict (YDict [(''killer'', YStr ''s1'')]) then YDict [(''killer'', YStr ''s1'')]
                  else YDict []) ''killer'' YNull = Inr (YStr ''s1'')"
    by (simp add: is_dict_def py_get_def)
  have g: "py_get nameless_killer ''suspects'' (YList []) = Inr (YList ?elems)"
    by (simp add: nameless_killer_def py_get_def)
  have i: "py_iter (YList ?elems) = Inr ?elems" by (simp add: py_iter_def)
  have d: "suspects_by_id ?elems = Inr [(YStr ''s1'', YDict [(''id'', YStr ''s1'')])]"
    by (simp add: suspects_by_id_def py_subscript_def pd_store_def)
  have n: "case pd_get [(YStr ''s1'', YDict [(''id'', YStr ''s1'')])] (YStr ''s1'') of None \<Rightarrow> True
         | Some s \<Rightarrow> py_get s ''name'' (YStr []) = Inr (YStr [])"
    by (simp add: py_get_def)
  have t: "\<not> substring ''s1'' (lower (json_dumps (YDict [(''goal'', YStr ''Identify the culprit'')])))"
    by code_simp
  show ?thesis
    using nameless_killer_never_warned[OF check_nameless_killer s k g i d n] t
    by (simp add: new_result_def)
qed


section \<open>Properties of a whole run\<close>

lemma isl_bind_left: "isl m \<Longrightarrow> isl (bind_r m f)"
  by (cases m) auto

lemma isl_bind_right: "(\<And>x. isl (f x)) \<Longrightarrow> isl (bind_r m f)"
  by (cases m) auto

lemma known_profiles_nameless:
  assumes "victim_nameless data"
  shows "isl (known_profiles data ids)"
proof -
  from assms obtain victim s where v: "py_get data ''victim'' (YDict []) = Inr victim"
    and n: "py_get victim ''name'' (YStr []) = Inr (YStr s)" and s: "split_ws s = []"
    by (auto simp: victim_nameless_def split: sum.splits yval.splits)
  show ?thesis
    by (auto simp: known_profiles_def v n s bind_r_def split: sum.splits)
qed

lemma evidence_pass_nameless:
  assumes "victim_nameless data"
  shows "isl (check_evidence_ids order data rooms ids killer_id r)"
  unfolding check_evidence_ids_def Let_def
  by (rule isl_bind_left[OF known_profiles_nameless[OF assms]] | rule isl_bind_right)+

lemma run_nameless:
  assumes "victim_nameless data"
  shows "isl (run_checks order exists raw_text data)"
  unfolding run_checks_def Let_def
  by (rule isl_bind_left[OF evidence_pass_nameless[OF assms]] | rule isl_bind_right)+

lemma run_victim_without_name:
  "run_checks (\<lambda>xs. xs) (\<lambda>p. True) [] victim_without_name = Inl IndexError"
  by code_simp

lemma run_suspect_without_id:
  "run_checks (\<lambda>xs. xs) (\<lambda>p. True) [] suspect_without_id = Inl KeyError"
  by code_simp

text \<open>
  C1. The code does not always produce a report. The schema check records the missing
  victim name as a warning and goes on, and then line 310 takes the first word of the
  name: whatever the set order, the file system and the text, the run of a document
  whose victim has no name ends in an exception, IndexError for the first document
  above. Line 191 subscripts every suspect with \<open>'id'\<close>: the run of the second document
  ends in KeyError.
\<close>

theorem run_raises_instead_of_reporting:
  "(\<forall>order exists raw_text. isl (run_checks order exists raw_text victim_without_name))
   \<and> run_checks (\<lambda>xs. xs) (\<lambda>p. True) [] victim_without_name = Inl IndexError
   \<and> run_checks (\<lambda>xs. xs) (\<lambda>p. True) [] suspect_without_id = Inl KeyError"
proof -
  have "victim_nameless victim_without_name"
    by (simp add: victim_nameless_def victim_without_name_def py_get_def split_ws_def)
  then show ?thesis
    using run_nameless run_victim_without_name run_suspect_without_id by blast
qed

lemma agree_Inr: "R x y \<Longrightarrow> agree R (Inr x) (Inr y)"
  by (simp add: agree_def)

lemma agree_Inl: "agree R (Inl e) (Inl e)"
  by (simp add: agree_def)

lemma agree_bind:
  assumes "agree A m m'" "\<And>x y. A x y \<Longrightarrow> agree B (f x) (g y)"
  shows "agree B (bind_r m f) (bind_r m' g)"
  using assms by (cases m; cases m') (auto simp: agree_def)

lemma agree_bind_same:
  assumes "\<And>x. agree B (f x) (g x)"
  shows "agree B (bind_r m f) (bind_r m g)"
  using assms by (cases m) (auto simp: agree_def)

lemmas agree_bind_msgs = agree_bind[where A=same_msgs]
lemmas agree_bind_state = agree_bind[where A=same_state]

lemma agree_for_each:
  assumes "\<And>x s t. S s t \<Longrightarrow> agree S (body x s) (body' x t)" "S s t"
  shows "agree S (for_each xs body s) (for_each xs body' t)"
  using assms(2)
proof (induction xs arbitrary: s t)
  case Nil
  then show ?case by (simp add: agree_Inr)
next
  case (Cons x xs)
  show ?case
    unfolding for_each.simps
    by (rule agree_bind[where A=S]) (rule assms(1)[OF Cons.prems], rule Cons.IH)
qed

lemmas agree_for_each_msgs = agree_for_each[where S=same_msgs]
lemmas agree_for_each_state = agree_for_each[where S=same_state]

lemma agree_if:
  assumes "c \<Longrightarrow> agree R a b" "\<not> c \<Longrightarrow> agree R a' b'"
  shows "agree R (if c then a else a') (if c then b else b')"
  using assms by simp

lemma same_msgs_err: "same_msgs r r' \<Longrightarrow> same_msgs (err m r) (err m r')"
  by (simp add: same_msgs_def)

lemma same_msgs_warn: "same_msgs r r' \<Longrightarrow> same_msgs (warn m r) (warn m r')"
  by (simp add: same_msgs_def)

lemma same_msgs_err_if: "same_msgs r r' \<Longrightarrow> same_msgs (err_if c m r) (err_if c m r')"
  by (simp add: same_msgs_def)

lemma same_msgs_warn_if: "same_msgs r r' \<Longrightarrow> same_msgs (warn_if c m r) (warn_if c m r')"
  by (simp add: same_msgs_def)

lemma same_msgs_warn_all:
  "same_msgs r r' \<Longrightarrow> mset ms = mset ms' \<Longrightarrow> filter order_free ms = filter order_free ms'
   \<Longrightarrow> same_msgs (warn_all ms r) (warn_all ms' r')"
  by (simp add: same_msgs_def)

lemma same_msgs_if:
  assumes "c \<Longrightarrow> same_msgs a b" "\<not> c \<Longrightarrow> same_msgs a' b'"
  shows "same_msgs (if c then a else a') (if c then b else b')"
  using assms by simp

lemma agree_Let_same:
  assumes "\<And>a. agree R (f a) (g a)"
  shows "agree R (Let a f) (Let a g)"
  using assms by simp

lemma agree_Let_msgs:
  assumes "same_msgs x y" "\<And>a b. same_msgs a b \<Longrightarrow> agree R (f a) (g b)"
  shows "agree R (Let x f) (Let y g)"
  using assms by simp

lemma same_stateI: "same_msgs r r' \<Longrightarrow> same_state (a, r) (a, r')"
  by (simp add: same_state_def)

lemma same_msgs_refl: "same_msgs r r"
  by (simp add: same_msgs_def)

lemmas agree_intros = agree_bind_same agree_bind_msgs agree_for_each_msgs agree_if agree_Inr agree_Inl
  agree_Let_same agree_Let_msgs
  same_msgs_err same_msgs_warn same_msgs_err_if same_msgs_warn_if same_msgs_if

lemma check_schema_agree:
  "same_msgs r r' \<Longrightarrow> agree same_msgs (check_schema data r) (check_schema data r')"
  unfolding check_schema_def by (intro agree_intros)

lemma check_flags_agree:
  "same_msgs r r' \<Longrightarrow> agree same_msgs (check_flags roles s sid r) (check_flags roles s sid r')"
  unfolding check_flags_def by (intro agree_intros)

lemma check_roles_agree:
  "same_msgs r r' \<Longrightarrow> agree same_msgs (check_roles ids roles r) (check_roles ids roles r')"
  unfolding check_roles_def by (intro agree_intros)

lemma check_suspect_agree:
  "same_msgs r r' \<Longrightarrow> agree same_msgs (check_suspect rooms roles s r) (check_suspect rooms roles s r')"
  unfolding check_suspect_def by (intro agree_intros check_flags_agree)

lemma check_suspects_and_solution_agree:
  "same_msgs r r' \<Longrightarrow>
   agree same_state (check_suspects_and_solution data rooms r) (check_suspects_and_solution data rooms r')"
  unfolding check_suspects_and_solution_def
  by (intro agree_intros check_roles_agree check_suspect_agree same_stateI)

lemma connect_step_agree:
  "same_state s t \<Longrightarrow> agree same_state (connect_step rooms room target s) (connect_step rooms room target t)"
  by (cases target) (auto simp: connect_step_def same_state_def agree_def same_msgs_def)

lemma map_room_agree:
  "same_state s t \<Longrightarrow> agree same_state (map_room rooms e s) (map_room rooms e t)"
  unfolding map_room_def
  by (intro agree_bind_same agree_bind_state agree_for_each_state connect_step_agree agree_Inr)
     (auto simp: same_state_def)

lemma unreachable_warnings_mset:
  assumes "valid_order o1" "valid_order o2"
  shows "mset (unreachable_warnings o1 rooms adj) = mset (unreachable_warnings o2 rooms adj)"
proof (cases rooms)
  case Nil
  then show ?thesis by (simp add: unreachable_warnings_def)
next
  case (Cons start others)
  have "mset (map f (o1 xs)) = mset (map f (o2 xs))" for f :: "string \<Rightarrow> msg" and xs
    using assms by (simp add: valid_order_def)
  then show ?thesis by (simp add: unreachable_warnings_def Cons Let_def)
qed

lemma unreachable_warnings_order_free:
  "filter order_free (unreachable_warnings o1 rooms adj) = filter order_free (unreachable_warnings o2 rooms adj)"
  by (cases rooms) (simp_all add: unreachable_warnings_def Let_def filter_empty_conv[THEN iffD2])

lemma map_tail_agree:
  assumes "valid_order o1" "valid_order o2" "same_state x y"
  shows "agree same_state
            (let adj = fst x; r1 = warn_all (one_way_warnings adj) (snd x);
                 r2 = warn_all (unreachable_warnings o1 a adj) r1
             in bind_r (py_get data ''murderLocation'' YNull)
                 (\<lambda>murder_loc.
                     bind_r (if truthy murder_loc then in_strs murder_loc a else Inr True)
                      (\<lambda>known. Inr ((a, adj),
                               err_if (\<not> known) (MurderLocationNotInMap murder_loc) r2))))
            (let adj = fst y; r1 = warn_all (one_way_warnings adj) (snd y);
                 r2 = warn_all (unreachable_warnings o2 a adj) r1
             in bind_r (py_get data ''murderLocation'' YNull)
                 (\<lambda>murder_loc.
                     bind_r (if truthy murder_loc then in_strs murder_loc a else Inr True)
                      (\<lambda>known. Inr ((a, adj),
                               err_if (\<not> known) (MurderLocationNotInMap murder_loc) r2))))"
proof -
  from assms(3) have f: "fst y = fst x" and s: "same_msgs (snd x) (snd y)"
    by (simp_all add: same_state_def)
  show ?thesis
    unfolding Let_def f
    by (intro agree_bind_same agree_Inr same_stateI same_msgs_err_if same_msgs_warn_all
        unreachable_warnings_mset unreachable_warnings_order_free assms(1,2) s refl)
qed

lemma check_map_agree:
  assumes "valid_order o1" "valid_order o2" "same_msgs r r'"
  shows "agree same_state (check_map o1 data r) (check_map o2 data r')"
  unfolding check_map_def
  apply (intro agree_bind_same agree_if agree_Inr same_stateI same_msgs_err assms(3) agree_Let_same)
  apply (rule agree_bind_state)
   apply (intro agree_for_each_state map_room_agree same_stateI assms(3); assumption?)
  apply (rule map_tail_agree[OF assms(1,2)])
  apply assumption
  done


section \<open>Runs under different set iteration orders\<close>

lemma discovery_entry_agree:
  "same_msgs r r' \<Longrightarrow>
   agree same_msgs (discovery_entry rooms ids entry r) (discovery_entry rooms ids entry r')"
  unfolding discovery_entry_def Let_def
  by (cases "snd entry"; simp) (intro agree_intros; assumption?)+

lemma interactables_entry_agree:
  "same_msgs r r' \<Longrightarrow>
   agree same_msgs (interactables_entry ids entry r) (interactables_entry ids entry r')"
  unfolding interactables_entry_def
  by (intro agree_intros)

lemma dna_entry_agree:
  "same_msgs r r' \<Longrightarrow>
   agree same_msgs (dna_entry rooms profiles entry r) (dna_entry rooms profiles entry r')"
  unfolding dna_entry_def Let_def
  by (cases "snd entry"; simp) (intro agree_intros; assumption?)+

lemma never_discoverable_mset:
  assumes "valid_order o1" "valid_order o2"
  shows "mset (never_discoverable_warnings o1 ids d) = mset (never_discoverable_warnings o2 ids d)"
  using assms by (simp add: never_discoverable_warnings_def valid_order_def mset_filter)

lemma never_discoverable_order_free:
  "filter order_free (never_discoverable_warnings o1 ids d)
     = filter order_free (never_discoverable_warnings o2 ids d)"
  by (simp add: never_discoverable_warnings_def filter_empty_conv[THEN iffD2])

lemma check_evidence_ids_agree:
  assumes "valid_order o1" "valid_order o2" "same_msgs r r'"
  shows "agree same_msgs (check_evidence_ids o1 data rooms ids killer_id r)
           (check_evidence_ids o2 data rooms ids killer_id r')"
  unfolding check_evidence_ids_def
  by (intro agree_intros discovery_entry_agree interactables_entry_agree dna_entry_agree
      same_msgs_warn_all never_discoverable_mset never_discoverable_order_free assms)

lemma requires_evidence_entry_agree:
  "same_msgs r r' \<Longrightarrow> agree same_msgs (requires_evidence_entry valid sid sec_id req r)
     (requires_evidence_entry valid sid sec_id req r')"
  unfolding requires_evidence_entry_def by (intro agree_intros)

lemma requires_secrets_entry_agree:
  "same_msgs r r' \<Longrightarrow> agree same_msgs (requires_secrets_entry all_ids sid sec_id req r)
     (requires_secrets_entry all_ids sid sec_id req r')"
  unfolding requires_secrets_entry_def by (intro agree_intros)

lemma self_reference_agree:
  "same_msgs r r' \<Longrightarrow> agree same_msgs (self_reference trigger sid sec_id r)
     (self_reference trigger sid sec_id r')"
  unfolding self_reference_def by (intro agree_intros)

lemma check_min_pressure_agree:
  "same_msgs r r' \<Longrightarrow> agree same_msgs (check_min_pressure trigger sid sec_id r)
     (check_min_pressure trigger sid sec_id r')"
  unfolding check_min_pressure_def by (intro agree_intros)

lemma check_secret_agree:
  "same_msgs r r' \<Longrightarrow> agree same_msgs (check_secret valid all_ids sid secret r)
     (check_secret valid all_ids sid secret r')"
  unfolding check_secret_def
  by (intro agree_intros requires_evidence_entry_agree requires_secrets_entry_agree
      self_reference_agree check_min_pressure_agree)

lemma check_suspect_secrets_agree:
  "same_msgs r r' \<Longrightarrow> agree same_msgs (check_suspect_secrets valid all all_ids suspect r)
     (check_suspect_secrets valid all all_ids suspect r')"
  unfolding check_suspect_secrets_def by (intro agree_intros check_secret_agree)

lemma pressure_entry_agree:
  "same_msgs r r' \<Longrightarrow> agree same_msgs (pressure_entry pressures sid sec_id sec_mp req r)
     (pressure_entry pressures sid sec_id sec_mp req r')"
  unfolding pressure_entry_def by (intro agree_intros)

lemma check_pressure_order_agree:
  "same_msgs r r' \<Longrightarrow> agree same_msgs (check_pressure_order suspect r) (check_pressure_order suspect r')"
  unfolding check_pressure_order_def by (intro agree_intros pressure_entry_agree)

lemma check_secret_triggers_agree:
  "same_msgs r r' \<Longrightarrow> agree same_msgs (check_secret_triggers data rooms r)
     (check_secret_triggers data rooms r')"
  unfolding check_secret_triggers_def
  by (intro agree_intros check_suspect_secrets_agree check_pressure_order_agree)

lemma check_asset_agree:
  "same_msgs r r' \<Longrightarrow> agree same_msgs (check_asset exists path ctx r) (check_asset exists path ctx r')"
  by (cases path) (auto simp: check_asset_def Let_def intro!: agree_Inr agree_Inl same_msgs_err_if)

lemma check_assets_agree:
  "same_msgs r r' \<Longrightarrow> agree same_msgs (check_assets exists data r) (check_assets exists data r')"
  unfolding check_assets_def
proof (intro agree_intros check_asset_agree)
  fix entry :: "string \<times> yval" and s t
  assume st: "same_msgs s t"
  show "agree same_msgs
       (case snd entry of
          YDict kvs \<Rightarrow>
            (case map_of kvs ''image'' of
               Some img \<Rightarrow> check_asset exists img (RoomImage (fst entry)) s
             | None \<Rightarrow> Inr s)
        | _ \<Rightarrow> Inr s)
       (case snd entry of
          YDict kvs \<Rightarrow>
            (case map_of kvs ''image'' of
               Some img \<Rightarrow> check_asset exists img (RoomImage (fst entry)) t
             | None \<Rightarrow> Inr t)
        | _ \<Rightarrow> Inr t)"
    using st by (auto split: yval.splits option.splits intro: agree_Inr check_asset_agree)
qed

lemma check_murder_scene_agree:
  "same_msgs r r' \<Longrightarrow> agree same_msgs (check_murder_scene k m s e r) (check_murder_scene k m s e r')"
  unfolding check_murder_scene_def by (intro agree_intros)

lemma check_confession_agree:
  "same_msgs r r' \<Longrightarrow> agree same_msgs (check_confession k s r) (check_confession k s r')"
  unfolding check_confession_def by (intro agree_intros)

lemma check_win_conditions_agree:
  "same_msgs r r' \<Longrightarrow> agree same_msgs (check_win_conditions k s data r) (check_win_conditions k s data r')"
  unfolding check_win_conditions_def by (intro agree_intros)

lemma check_narrative_consistency_agree:
  "same_msgs r r' \<Longrightarrow>
   agree same_msgs (check_narrative_consistency data r) (check_narrative_consistency data r')"
  unfolding check_narrative_consistency_def
  by (intro agree_intros check_murder_scene_agree check_confession_agree check_win_conditions_agree)

lemma agree_bind_state_split:
  assumes "agree same_state m m'" "\<And>a r r'. same_msgs r r' \<Longrightarrow> agree B (f (a, r)) (g (a, r'))"
  shows "agree B (bind_r m f) (bind_r m' g)"
proof (rule agree_bind_state[OF assms(1)])
  fix x y :: "'a \<times> result"
  assume "same_state x y"
  then have "y = (fst x, snd y)" "same_msgs (snd x) (snd y)" by (simp_all add: same_state_def)
  with assms(2)[of "snd x" "snd y" "fst x"] show "agree B (f x) (g y)"
    by (metis prod.collapse)
qed

lemma run_checks_agree:
  assumes "valid_order o1" "valid_order o2"
  shows "agree same_msgs (run_checks o1 exists raw_text data) (run_checks o2 exists raw_text data)"
  unfolding run_checks_def Let_def
  apply (rule agree_bind_msgs[OF check_schema_agree[OF same_msgs_refl]])
  apply (rule agree_bind_state_split[OF check_map_agree[OF assms]], assumption)
  apply (simp only: fst_conv snd_conv)
  apply (rule agree_bind_state_split[OF check_suspects_and_solution_agree], assumption)
  apply (simp only: fst_conv snd_conv)
  apply (intro agree_bind_msgs agree_bind_same agree_Inr check_evidence_ids_agree assms
      check_secret_triggers_agree check_assets_agree check_narrative_consistency_agree; assumption)
  done

lemma run_two_isolated_rooms:
  "run_checks (\<lambda>xs. xs) (\<lambda>p. True) [] two_isolated_rooms
     = Inr \<lparr>errors = [SchemaMissingField ''description'', SchemaMissingField ''murderTime'',
                       SchemaMissingField ''murderLocation'', SchemaMissingField ''evidence'',
                       SchemaMissingField ''settings''],
            warnings = [VictimMissingField ''avatar'', Unreachable ''attic'' ''hall'',
                        Unreachable ''cellar'' ''hall'', MissingAlibi (YStr ''s1''),
                        NoSecrets (YStr ''s1''), KillerNoConfession (YStr ''s1''),
                        NoPoliceStatement (YStr ''s1'')]\<rparr>"
  by code_simp

lemma run_two_isolated_rooms_rev:
  "run_checks rev (\<lambda>p. True) [] two_isolated_rooms
     = Inr \<lparr>errors = [SchemaMissingField ''description'', SchemaMissingField ''murderTime'',
                       SchemaMissingField ''murderLocation'', SchemaMissingField ''evidence'',
                       SchemaMissingField ''settings''],
            warnings = [VictimMissingField ''avatar'', Unreachable ''cellar'' ''hall'',
                        Unreachable ''attic'' ''hall'', MissingAlibi (YStr ''s1''),
                        NoSecrets (YStr ''s1''), KillerNoConfession (YStr ''s1''),
                        NoPoliceStatement (YStr ''s1'')]\<rparr>"
  by code_simp

lemma valid_order_id: "valid_order (\<lambda>xs. xs)"
  by (simp add: valid_order_def)

lemma valid_order_rev: "valid_order rev"
  by (simp add: valid_order_def)

text \<open>
  C3 (as amended). Two runs on the same text, document and file system, whatever the
  set iteration orders of the two runs, end alike: both in the same exception, or both
  with a report, and then with the same sequence of errors, with the same warnings
  counted with their repetitions, and with the same sequence of the warnings other than
  the unreachable-room warnings (line 178) and the never-discoverable warnings
  (line 294).
\<close>

theorem runs_agree_up_to_set_order:
  assumes "valid_order o1" "valid_order o2"
  shows "same_report (run_checks o1 exists raw_text data) (run_checks o2 exists raw_text data)"
  unfolding same_report_def by (rule run_checks_agree[OF assms])

theorem runs_agree_up_to_set_order_witness:
  "same_report
     (Inr \<lparr>errors = [SchemaMissingField ''description'', SchemaMissingField ''murderTime'',
                       SchemaMissingField ''murderLocation'', SchemaMissingField ''evidence'',
                       SchemaMissingField ''settings''],
            warnings = [VictimMissingField ''avatar'', Unreachable ''attic'' ''hall'',
                        Unreachable ''cellar'' ''hall'', MissingAlibi (YStr ''s1''),
                        NoSecrets (YStr ''s1''), KillerNoConfession (YStr ''s1''),
                        NoPoliceStatement (YStr ''s1'')]\<rparr>)
     (Inr \<lparr>errors = [SchemaMissingField ''description'', SchemaMissingField ''murderTime'',
                       SchemaMissingField ''murderLocation'', SchemaMissingField ''evidence'',
                       SchemaMissingField ''settings''],
            warnings = [VictimMissingField ''avatar'', Unreachable ''cellar'' ''hall'',
                        Unreachable ''attic'' ''hall'', MissingAlibi (YStr ''s1''),
                        NoSecrets (YStr ''s1''), KillerNoConfession (YStr ''s1''),
                        NoPoliceStatement (YStr ''s1'')]\<rparr>)"
  using runs_agree_up_to_set_order[OF valid_order_id valid_order_rev,
      of "\<lambda>p. True" "[]" two_isolated_rooms]
  unfolding run_two_isolated_rooms run_two_isolated_rooms_rev .

text \<open>
  C3 fails as stated: lines 177 and 292 iterate over sets of strings, whose order is
  not the order of the document. With two unreachable rooms, a run that visits the set
  in one order and a run that visits it in the reverse order record the two warnings in
  different orders.
\<close>

theorem set_order_changes_warnings_counterexample:
  "valid_order (\<lambda>xs. xs) \<and> valid_order rev
   \<and> run_checks (\<lambda>xs. xs) (\<lambda>p. True) [] two_isolated_rooms
       \<noteq> run_checks rev (\<lambda>p. True) [] two_isolated_rooms"
  unfolding run_two_isolated_rooms run_two_isolated_rooms_rev
  by (simp add: valid_order_id valid_order_rev)


end
